theory Spec2Isabelle
  imports Main "HOL-Library.Char_ord" "HOL-Library.List_Lexorder" "HOL-Library.Product_Lexorder"
begin

section \<open>The Market Configuration Processor (gp-config-mcp)\<close>

text \<open>
  This theory embeds the command-line processor of \<^verbatim>\<open>src/unnamed/part_004\<close>: the merge
  engine \<^verbatim>\<open>mergeFill\<close>, the safety gate, the input loader, the scoped-row discoverer and
  the four operation executors. Every definition carries the name of the TypeScript
  function it embeds.
\<close>

subsection \<open>JSON documents\<close>

text \<open>
  The documents handled by the processor come out of \<^verbatim>\<open>yaml.load\<close> (input files) and out
  of a JSONB column (stored rows), so they are JSON values. An object is the list of its
  own enumerable properties in enumeration order; arrays are lists.

  Limits of the model, stated once:
  \<^item> \<^verbatim>\<open>undefined\<close> is not a JSON value. In the source it only arises from reading an absent
    property or an index out of range; both are \<open>None\<close> of an \<open>option\<close> here.
  \<^item> Numbers are opaque to the merge apart from the test for zero made by \<^verbatim>\<open>!item[key]\<close>;
    integers stand for them (no \<^verbatim>\<open>NaN\<close>, no infinities).
  \<^item> Property lookup sees own properties only: the members inherited from
    \<^verbatim>\<open>Object.prototype\<close> (\<^verbatim>\<open>constructor\<close>, \<^verbatim>\<open>toString\<close>, \<^verbatim>\<open>__proto__\<close>, ...), which the JavaScript
    operator \<^verbatim>\<open>in\<close> also answers for, are outside the model.
\<close>

datatype json =
    JNull
  | JBool bool
  | JNum int
  | JStr string
  | JArr "json list"
  | JObj "(string \<times> json) list"

text \<open>
  \<^verbatim>\<open>clone(value) = JSON.parse(JSON.stringify(value))\<close>: a deep copy. On a JSON value the
  round trip returns a structurally equal value, and HOL values are immutable, so the
  copy is the value itself.
\<close>

definition clone :: "json \<Rightarrow> json" where
  "clone v = v"

text \<open>\<^verbatim>\<open>isObject(value)\<close>: truthy, of type object and not an array.\<close>

fun isObject :: "json \<Rightarrow> bool" where
  "isObject (JObj kvs) = True"
| "isObject v = False"

text \<open>\<^verbatim>\<open>item[key]\<close> on an object; \<open>None\<close> is \<^verbatim>\<open>undefined\<close>.\<close>

fun getProp :: "json \<Rightarrow> string \<Rightarrow> json option" where
  "getProp (JObj kvs) key = map_of kvs key"
| "getProp v key = None"

text \<open>JavaScript truthiness, as tested by \<^verbatim>\<open>!item[key]\<close>.\<close>

fun truthy :: "json option \<Rightarrow> bool" where
  "truthy None = False"
| "truthy (Some JNull) = False"
| "truthy (Some (JBool b)) = b"
| "truthy (Some (JNum n)) = (n \<noteq> 0)"
| "truthy (Some (JStr s)) = (s \<noteq> [])"
| "truthy (Some (JArr xs)) = True"
| "truthy (Some (JObj kvs)) = True"

text \<open>\<^verbatim>\<open>typeof item[key] === "string"\<close>.\<close>

fun isString :: "json option \<Rightarrow> bool" where
  "isString (Some (JStr s)) = True"
| "isString v = False"

subsection \<open>The merge engine\<close>

definition idKeys :: "string list" where
  "idKeys = [''id'', ''product_id'', ''category_id'', ''vendor_id'', ''service_id'']"

text \<open>
  The body of the loop of \<^verbatim>\<open>detectIdKey\<close> for one key: \<^verbatim>\<open>arr.every(...)\<close> followed by
  \<^verbatim>\<open>hasAny\<close>.
\<close>

definition qualifies :: "string \<Rightarrow> json list \<Rightarrow> bool" where
  "qualifies key arr \<longleftrightarrow>
     list_all (\<lambda>item. \<not> isObject item \<or> \<not> truthy (getProp item key) \<or> isString (getProp item key)) arr
     \<and> list_ex (\<lambda>item. isObject item \<and> isString (getProp item key)) arr"

text \<open>\<^verbatim>\<open>detectIdKey\<close>: the first key of the list that passes, or \<^verbatim>\<open>null\<close>.\<close>

definition detectIdKey :: "json list \<Rightarrow> string option" where
  "detectIdKey arr = find (\<lambda>key. qualifies key arr) idKeys"

text \<open>\<^verbatim>\<open>detectIdKey(current) || detectIdKey(incoming)\<close>; no key of the list is empty.\<close>

fun orElse :: "'a option \<Rightarrow> 'a option \<Rightarrow> 'a option" where
  "orElse (Some x) y = Some x"
| "orElse None y = y"

text \<open>
  \<^verbatim>\<open>isObject(item) && typeof item[key] === "string"\<close>, with the string when the test
  holds.
\<close>

fun stringProp :: "json \<Rightarrow> string \<Rightarrow> string option" where
  "stringProp (JObj kvs) key = (case map_of kvs key of Some (JStr s) \<Rightarrow> Some s | _ \<Rightarrow> None)"
| "stringProp v key = None"

text \<open>
  \<^verbatim>\<open>indexById\<close>: the \<^verbatim>\<open>Map\<close> filled by \<^verbatim>\<open>next.forEach\<close>; a later element with the same
  identifier replaces the earlier index.
\<close>

definition indexById :: "string \<Rightarrow> json list \<Rightarrow> (string \<rightharpoonup> nat)" where
  "indexById key next =
     foldl (\<lambda>m (index, item). case stringProp item key of Some s \<Rightarrow> m(s \<mapsto> index) | None \<Rightarrow> m)
       Map.empty (enumerate 0 next)"

text \<open>
  Reading and writing an array by index. Out of range, JavaScript reads \<^verbatim>\<open>undefined\<close> and
  a write extends the array; the holes it leaves read as \<^verbatim>\<open>undefined\<close> and serialise as
  \<^verbatim>\<open>null\<close>. (The indices of \<open>indexById\<close> are always in range; the model does not rely
  on it.)
\<close>

fun arrGet :: "json list \<Rightarrow> nat \<Rightarrow> json option" where
  "arrGet xs i = (if i < length xs then Some (xs ! i) else None)"

definition arrSet :: "json list \<Rightarrow> nat \<Rightarrow> json \<Rightarrow> json list" where
  "arrSet xs i v = (if i < length xs then xs[i := v] else xs @ replicate (i - length xs) JNull @ [v])"

text \<open>\<^verbatim>\<open>next[key] = value\<close> on an object: replaces the property or adds it at the end.\<close>

fun objSet :: "('k \<times> 'v) list \<Rightarrow> 'k \<Rightarrow> 'v \<Rightarrow> ('k \<times> 'v) list" where
  "objSet [] key v = [(key, v)]"
| "objSet ((k, w) # kvs) key v = (if k = key then (k, v) # kvs else (k, w) # objSet kvs key v)"

text \<open>
  \<^verbatim>\<open>mergeFill(current, incoming)\<close> returns \<^verbatim>\<open>{ value, changed }\<close>, here a pair. The two
  \<^verbatim>\<open>for\<close> loops of the source are \<open>mergeItems\<close> (over the incoming array, with the
  detected key, the index map, and the loop state \<^verbatim>\<open>next\<close>, \<^verbatim>\<open>changed\<close>) and
  \<open>mergeEntries\<close> (over \<^verbatim>\<open>Object.entries(incoming)\<close>). The equations are tried in order,
  as the \<^verbatim>\<open>if\<close> statements of the source are.
\<close>

function (sequential) mergeFill :: "json \<Rightarrow> json \<Rightarrow> json \<times> bool"
  and mergeItems :: "string \<Rightarrow> (string \<rightharpoonup> nat) \<Rightarrow> json list \<Rightarrow> bool \<Rightarrow> json list \<Rightarrow> json list \<times> bool"
  and mergeEntries :: "(string \<times> json) list \<Rightarrow> bool \<Rightarrow> (string \<times> json) list \<Rightarrow> (string \<times> json) list \<times> bool"
where
  "mergeFill JNull incoming = (clone incoming, True)"
| "mergeFill (JStr s) incoming = (if s = [] then (clone incoming, True) else (JStr s, False))"
| "mergeFill (JArr current) (JArr incoming) =
     (if current = [] \<and> incoming \<noteq> [] then (clone (JArr incoming), True)
      else case orElse (detectIdKey current) (detectIdKey incoming) of
             None \<Rightarrow> (JArr current, False)
           | Some key \<Rightarrow>
               (case mergeItems key (indexById key current) current False incoming of
                  (next, changed) \<Rightarrow> (JArr next, changed)))"
| "mergeFill (JObj current) (JObj incoming) =
     (case mergeEntries current False incoming of (next, changed) \<Rightarrow> (JObj next, changed))"
| "mergeFill current incoming = (current, False)"
| "mergeItems key idx next changed [] = (next, changed)"
| "mergeItems key idx next changed (incomingItem # rest) =
     (case stringProp incomingItem key of
        None \<Rightarrow> mergeItems key idx next changed rest
      | Some ident \<Rightarrow>
          (case idx ident of
             None \<Rightarrow> mergeItems key idx (next @ [clone incomingItem]) True rest
           | Some currentIndex \<Rightarrow>
               (let merged = (case arrGet next currentIndex of
                                None \<Rightarrow> (clone incomingItem, True)
                              | Some cur \<Rightarrow> mergeFill cur incomingItem)
                in if snd merged
                   then mergeItems key idx (arrSet next currentIndex (fst merged)) True rest
                   else mergeItems key idx next changed rest)))"
| "mergeEntries next changed [] = (next, changed)"
| "mergeEntries next changed ((key, incomingValue) # rest) =
     (case map_of next key of
        None \<Rightarrow> mergeEntries (next @ [(key, clone incomingValue)]) True rest
      | Some cur \<Rightarrow>
          (let merged = mergeFill cur incomingValue
           in if snd merged
              then mergeEntries (objSet next key (fst merged)) True rest
              else mergeEntries next changed rest))"
  by pat_completeness auto
termination
  by (relation "measure (\<lambda>x. case x of
        Inl (c, i) \<Rightarrow> size i
      | Inr (Inl (k, idx, n, ch, inc)) \<Rightarrow> size_list size inc
      | Inr (Inr (n, ch, es)) \<Rightarrow> size_list (size_prod (\<lambda>_. 0) size) es)") auto

subsection \<open>Paths into a document\<close>

text \<open>
  A leaf path is a list of object keys and array indices; \<open>atPath\<close> follows it. A
  non-empty scalar is a value that is neither \<^verbatim>\<open>null\<close> nor the empty string nor a
  container.
\<close>

datatype step = Key string | Idx nat

fun child :: "json \<Rightarrow> step \<Rightarrow> json option" where
  "child (JObj kvs) (Key k) = map_of kvs k"
| "child (JArr xs) (Idx i) = (if i < length xs then Some (xs ! i) else None)"
| "child v s = None"

fun atPath :: "json \<Rightarrow> step list \<Rightarrow> json option" where
  "atPath v [] = Some v"
| "atPath v (s # p) = (case child v s of None \<Rightarrow> None | Some c \<Rightarrow> atPath c p)"

fun nonEmptyScalar :: "json \<Rightarrow> bool" where
  "nonEmptyScalar (JBool b) = True"
| "nonEmptyScalar (JNum n) = True"
| "nonEmptyScalar (JStr s) = (s \<noteq> [])"
| "nonEmptyScalar v = False"


subsection \<open>Two readings of "a key qualifies"\<close>

text \<open>
  The specification's wording of the identity-key test, kept apart from the code's
  \<open>qualifies\<close>: a key qualifies for an array when at least one element exposes it as a
  string and no element exposes it as a non-string type. An element exposes a key when
  it is an object that has the property.
\<close>

definition exposesAsString :: "string \<Rightarrow> json \<Rightarrow> bool" where
  "exposesAsString key item \<longleftrightarrow> isObject item \<and> isString (getProp item key)"

definition exposesAsNonString :: "string \<Rightarrow> json \<Rightarrow> bool" where
  "exposesAsNonString key item \<longleftrightarrow>
     isObject item \<and> getProp item key \<noteq> None \<and> \<not> isString (getProp item key)"

definition qualifiesSpec :: "string \<Rightarrow> json list \<Rightarrow> bool" where
  "qualifiesSpec key arr \<longleftrightarrow>
     list_ex (exposesAsString key) arr \<and> \<not> list_ex (exposesAsNonString key) arr"

text \<open>
  The reading that the code implements: only a truthy non-string value disqualifies a
  key; \<^verbatim>\<open>null\<close>, \<^verbatim>\<open>false\<close> and \<^verbatim>\<open>0\<close> under the key are tolerated.
\<close>

definition qualifiesAmended :: "string \<Rightarrow> json list \<Rightarrow> bool" where
  "qualifiesAmended key arr \<longleftrightarrow>
     list_ex (exposesAsString key) arr
     \<and> \<not> list_ex (\<lambda>item. exposesAsNonString key item \<and> truthy (getProp item key)) arr"


subsection \<open>Arguments, report, errors\<close>

datatype Operation = Fill | Overwrite | Export | Delete

datatype LogLevel = Debug | Info | Warn

record CliArgs =
  instanceId :: string
  marketId :: string
  operation :: Operation
  configRoot :: string
  dbUrl :: "string option"
  outputPath :: "string option"
  confirm :: bool
  force :: bool
  dryRun :: bool
  logLevel :: LogLevel

datatype Section = Market | Products | VendorProducts

text \<open>The field \<^verbatim>\<open>section\<close> of a stored row is \<open>row_section\<close> (the plain name is reserved).\<close>

record StoredRow =
  row_section :: Section
  record_key :: string
  data :: json

record InputConfig =
  market :: "json option"
  products :: "json option"
  vendors :: "(string \<times> json) list"
  warnings :: "string list"

text \<open>
  The report. The fields \<^verbatim>\<open>operation\<close> and \<^verbatim>\<open>warnings\<close> carry a prefix because record
  fields are global names here.
\<close>

record Report =
  ok :: bool
  report_operation :: Operation
  instance_id :: string
  market_id :: string
  dry_run :: bool
  inserted :: nat
  updated :: nat
  skipped :: nat
  deleted :: nat
  report_warnings :: "string list"
  output_path :: "string option"
  exported_tables :: "string list option"

text \<open>Every \<^verbatim>\<open>throw new Error(...)\<close> of the source, and the failures of the calls it makes.\<close>

datatype error =
    ProdBlocked
  | ConfirmRequired Operation
  | DeleteRequiresConfirm
  | ConfirmationMismatch
  | DatabaseUrlRequired
  | InvalidSqlIdentifier string
  | MissingInstanceYaml string
  | ReadFailed string
  | InvalidYamlObject string
  | InstanceIdMismatch
  | MarketNotFound
  | SchemaValidationFailed string
  | TypeError
  | SqlError string

text \<open>The two environment variables the processor reads.\<close>

record Env =
  GP_ALLOW_PROD_MUTATIONS :: "string option"
  DATABASE_URL :: "string option"

subsection \<open>The safety gate\<close>

text \<open>
  \<^verbatim>\<open>/(prod|production)$/i.test(instanceId)\<close>: the identifier ends, letter case aside, with
  \<^verbatim>\<open>prod\<close> or with \<^verbatim>\<open>production\<close>. Without the \<^verbatim>\<open>u\<close> flag only the ASCII letters have
  case variants that match, and \<^verbatim>\<open>$\<close> is the end of the input.
\<close>

definition toLowerAscii :: "char \<Rightarrow> char" where
  "toLowerAscii c =
     (case map_of (zip ''ABCDEFGHIJKLMNOPQRSTUVWXYZ'' ''abcdefghijklmnopqrstuvwxyz'') c of
        Some l \<Rightarrow> l
      | None \<Rightarrow> c)"

definition endsWith :: "string \<Rightarrow> string \<Rightarrow> bool" where
  "endsWith s suffix \<longleftrightarrow>
     length suffix \<le> length s \<and> drop (length s - length suffix) s = suffix"

definition isProdLike :: "string \<Rightarrow> bool" where
  "isProdLike ident \<longleftrightarrow>
     endsWith (map toLowerAscii ident) ''prod'' \<or> endsWith (map toLowerAscii ident) ''production''"

definition ensureSafeDestructiveOperation :: "Env \<Rightarrow> CliArgs \<Rightarrow> error + unit" where
  "ensureSafeDestructiveOperation env args =
     (if \<not> (operation args = Overwrite \<or> operation args = Delete) then Inr ()
      else
        let allowProdMutations = (GP_ALLOW_PROD_MUTATIONS env = Some ''true'')
        in if isProdLike (instanceId args) \<and> \<not> allowProdMutations then Inl ProdBlocked
           else Inr ())"

definition requireConfirmFlags :: "CliArgs \<Rightarrow> error + unit" where
  "requireConfirmFlags args =
     (if operation args = Overwrite \<and> \<not> (confirm args \<or> force args)
        then Inl (ConfirmRequired Overwrite)
      else if operation args = Delete \<and> \<not> (confirm args \<or> force args)
        then Inl (ConfirmRequired Delete)
      else Inr ())"

text \<open>\<^verbatim>\<open>String.prototype.trim\<close>, on the ASCII white space and line terminators.\<close>

definition isSpace :: "char \<Rightarrow> bool" where
  "isSpace c \<longleftrightarrow> c \<in> set [CHR 0x20, CHR 0x09, CHR 0x0A, CHR 0x0B, CHR 0x0C, CHR 0x0D]"

definition trim :: "string \<Rightarrow> string" where
  "trim s = rev (dropWhile isSpace (rev (dropWhile isSpace s)))"

subsection \<open>The input loader\<close>

text \<open>
  The loader sees the file tree under \<^verbatim>\<open><config-root>/<instance_id>/\<close>. A file is absent
  (\<open>None\<close>), or reading and parsing it throws (\<open>Unreadable\<close>), or \<^verbatim>\<open>yaml.load\<close> returns a
  value (\<open>Loaded\<close>; an empty document loads as a falsy value, \<open>JNull\<close> here). The three JSON
  Schemas are not part of the sources: each is taken as the predicate that the compiled
  validator computes.
\<close>

datatype yamlFile = Unreadable | Loaded json

record VendorEntry =
  entryName :: string
  isDirectory :: bool
  vendorProductsYaml :: "yamlFile option"

record ConfigTree =
  instanceYaml :: "yamlFile option"
  marketYaml :: "yamlFile option"
  productsYaml :: "yamlFile option"
  vendorsDir :: "VendorEntry list option"

record Schemas =
  marketSchema :: "json \<Rightarrow> bool"
  productsSchema :: "json \<Rightarrow> bool"
  vendorProductsSchema :: "json \<Rightarrow> bool"

text \<open>\<^verbatim>\<open>path.join\<close> of two segments (no normalisation of the result).\<close>

definition pathJoin :: "string \<Rightarrow> string \<Rightarrow> string" where
  "pathJoin a b = a @ ''/'' @ b"

definition instanceDir :: "CliArgs \<Rightarrow> string" where
  "instanceDir args = pathJoin (configRoot args) (instanceId args)"

definition marketDir :: "CliArgs \<Rightarrow> string" where
  "marketDir args = pathJoin (pathJoin (instanceDir args) ''markets'') (marketId args)"

definition instanceYamlPath :: "CliArgs \<Rightarrow> string" where
  "instanceYamlPath args = pathJoin (instanceDir args) ''instance.yaml''"

definition marketYamlPath :: "CliArgs \<Rightarrow> string" where
  "marketYamlPath args = pathJoin (marketDir args) ''market.yaml''"

definition productsYamlPath :: "CliArgs \<Rightarrow> string" where
  "productsYamlPath args = pathJoin (marketDir args) ''products.yaml''"

definition vendorsDirPath :: "CliArgs \<Rightarrow> string" where
  "vendorsDirPath args = pathJoin (marketDir args) ''vendors''"

fun readYamlObject :: "string \<Rightarrow> yamlFile \<Rightarrow> error + json" where
  "readYamlObject yamlPath Unreadable = Inl (ReadFailed yamlPath)"
| "readYamlObject yamlPath (Loaded (JObj kvs)) = Inr (JObj kvs)"
| "readYamlObject yamlPath (Loaded v) = Inl (InvalidYamlObject yamlPath)"

definition validateAgainstSchema :: "(json \<Rightarrow> bool) \<Rightarrow> json \<Rightarrow> string \<Rightarrow> error + unit" where
  "validateAgainstSchema validate payload label =
     (if validate payload then Inr () else Inl (SchemaValidationFailed label))"

text \<open>
  \<^verbatim>\<open>markets.some((m) => m.market_id === args.marketId)\<close>: reading a property of \<^verbatim>\<open>null\<close>
  throws; every other value without the property answers \<^verbatim>\<open>undefined\<close>.
\<close>

fun someMarket :: "string \<Rightarrow> json list \<Rightarrow> error + bool" where
  "someMarket mid [] = Inr False"
| "someMarket mid (JNull # ms) = Inl TypeError"
| "someMarket mid (m # ms) =
     (if getProp m ''market_id'' = Some (JStr mid) then Inr True else someMarket mid ms)"

definition assertInstanceAndMarketExist :: "CliArgs \<Rightarrow> ConfigTree \<Rightarrow> error + unit" where
  "assertInstanceAndMarketExist args tree =
     (case instanceYaml tree of
        None \<Rightarrow> Inl (MissingInstanceYaml (instanceYamlPath args))
      | Some file \<Rightarrow>
          (case readYamlObject (instanceYamlPath args) file of
             Inl e \<Rightarrow> Inl e
           | Inr instanceData \<Rightarrow>
               if getProp instanceData ''instance_id'' \<noteq> Some (JStr (instanceId args))
               then Inl InstanceIdMismatch
               else
                 let markets = (case getProp instanceData ''markets'' of
                                  Some (JArr ms) \<Rightarrow> ms
                                | _ \<Rightarrow> [])
                 in (case someMarket (marketId args) markets of
                       Inl e \<Rightarrow> Inl e
                     | Inr hasMarket \<Rightarrow> if hasMarket then Inr () else Inl MarketNotFound)))"

text \<open>
  One optional file (\<^verbatim>\<open>market.yaml\<close>, \<^verbatim>\<open>products.yaml\<close>): read and validated when it
  exists, a warning otherwise.
\<close>

definition loadOptional ::
  "string \<Rightarrow> yamlFile option \<Rightarrow> (json \<Rightarrow> bool) \<Rightarrow> string \<Rightarrow> string list
     \<Rightarrow> error + (json option \<times> string list)" where
  "loadOptional yamlPath file validate label warns =
     (case file of
        None \<Rightarrow> Inr (None, warns @ [''Missing file: '' @ yamlPath])
      | Some f \<Rightarrow>
          (case readYamlObject yamlPath f of
             Inl e \<Rightarrow> Inl e
           | Inr doc \<Rightarrow>
               (case validateAgainstSchema validate doc label of
                  Inl e \<Rightarrow> Inl e
                | Inr u \<Rightarrow> Inr (Some doc, warns))))"

text \<open>
  The loop over \<^verbatim>\<open>fs.readdirSync(paths.vendorsDir)\<close>. The key of \<^verbatim>\<open>vendors\<close> is the name
  of the directory entry; the content of the file is stored under it as it is. \<open>acc\<close> is
  the object \<^verbatim>\<open>vendors\<close> built so far, the list of its own properties.

  \<^verbatim>\<open>vendors\<close> is a plain object literal, so the assignment \<^verbatim>\<open>vendors[vendorId] = vendorProducts\<close>
  for a directory named \<^verbatim>\<open>__proto__\<close> goes to the setter inherited from \<^verbatim>\<open>Object.prototype\<close>:
  the file's content (an object) becomes the prototype of \<^verbatim>\<open>vendors\<close> and no own property is
  created, so \<^verbatim>\<open>Object.entries(input.vendors)\<close> has no entry for that directory. No other
  name is treated specially by the assignment. (Limit: \<^verbatim>\<open>Object.entries\<close> lists the names
  that are array indices first, in numeric order; the list here is in insertion order.)
\<close>

definition assignVendor :: "(string \<times> json) list \<Rightarrow> string \<Rightarrow> json \<Rightarrow> (string \<times> json) list" where
  "assignVendor acc vendorId vendorProducts =
     (if vendorId = ''__proto__'' then acc else objSet acc vendorId vendorProducts)"

fun loadVendors ::
  "CliArgs \<Rightarrow> Schemas \<Rightarrow> VendorEntry list \<Rightarrow> (string \<times> json) list \<Rightarrow> string list
     \<Rightarrow> error + ((string \<times> json) list \<times> string list)" where
  "loadVendors args schemas [] acc warns = Inr (acc, warns)"
| "loadVendors args schemas (vendorEntry # entries) acc warns =
     (if \<not> isDirectory vendorEntry then loadVendors args schemas entries acc warns
      else
        let vendorId = entryName vendorEntry;
            vendorProductsPath = pathJoin (pathJoin (vendorsDirPath args) vendorId) ''products.yaml''
        in (case vendorProductsYaml vendorEntry of
              None \<Rightarrow>
                loadVendors args schemas entries acc
                  (warns @ [''Missing file: '' @ vendorProductsPath])
            | Some f \<Rightarrow>
                (case readYamlObject vendorProductsPath f of
                   Inl e \<Rightarrow> Inl e
                 | Inr vendorProducts \<Rightarrow>
                     (case validateAgainstSchema (vendorProductsSchema schemas) vendorProducts
                             (''vendors/'' @ vendorId @ ''/products.yaml'') of
                        Inl e \<Rightarrow> Inl e
                      | Inr u \<Rightarrow>
                          loadVendors args schemas entries
                            (assignVendor acc vendorId vendorProducts) warns))))"

definition loadInputConfig :: "CliArgs \<Rightarrow> Schemas \<Rightarrow> ConfigTree \<Rightarrow> error + InputConfig" where
  "loadInputConfig args schemas tree =
     (case assertInstanceAndMarketExist args tree of
        Inl e \<Rightarrow> Inl e
      | Inr u \<Rightarrow>
          (case loadOptional (marketYamlPath args) (marketYaml tree) (marketSchema schemas)
                  ''market.yaml'' [] of
             Inl e \<Rightarrow> Inl e
           | Inr (mkt, warns1) \<Rightarrow>
               (case loadOptional (productsYamlPath args) (productsYaml tree)
                       (productsSchema schemas) ''products.yaml'' warns1 of
                  Inl e \<Rightarrow> Inl e
                | Inr (prods, warns2) \<Rightarrow>
                    (case (case vendorsDir tree of
                             None \<Rightarrow> Inr ([], warns2)
                           | Some entries \<Rightarrow> loadVendors args schemas entries [] warns2) of
                       Inl e \<Rightarrow> Inl e
                     | Inr (vs, warns3) \<Rightarrow>
                         Inr \<lparr>market = mkt, products = prods, vendors = vs, warnings = warns3\<rparr>))))"

definition makeIncomingRows :: "InputConfig \<Rightarrow> StoredRow list" where
  "makeIncomingRows input =
     (case market input of
        Some m \<Rightarrow> [\<lparr>row_section = Market, record_key = ''market'', data = m\<rparr>]
      | None \<Rightarrow> [])
     @ (case products input of
          Some p \<Rightarrow> [\<lparr>row_section = Products, record_key = ''products'', data = p\<rparr>]
        | None \<Rightarrow> [])
     @ map (\<lambda>(vendorId, vendorProducts).
              \<lparr>row_section = VendorProducts, record_key = vendorId, data = vendorProducts\<rparr>)
         (vendors input)"


subsection \<open>The database and the outside world\<close>

text \<open>
  The processor talks to PostgreSQL through one client, writes one file and asks one
  question on the terminal. The model keeps what these calls can see and change:
  \<^item> the processor's own table \<^verbatim>\<open>gp_market_runtime_config\<close> (\<open>storage\<close>; \<open>None\<close> until it is
    created), a list of rows \<open>(instance_id, market_id, row)\<close>;
  \<^item> the other tables of schema \<^verbatim>\<open>public\<close> (\<open>tables\<close>), by name, each with its columns
    (name and \<^verbatim>\<open>udt_name\<close>) and its rows;
  \<^item> the files written (\<open>files\<close>);
  \<^item> the \<open>trace\<close> of what was done, in order: every SQL statement sent, the connection
    events, the file writes.
  The SQL statements are given the meaning PostgreSQL gives them on such tables: a
  statement on a table that does not exist raises, and so does a statement whose \<^verbatim>\<open>WHERE\<close>
  clause names a column that the table does not have or whose type the operator does not
  apply to (\<open>whereOk\<close>). Limits: table names are unique, and so are the column names of a
  table (the lists are read with \<open>map_of\<close>); a row holds for each column a cell of the
  column's type or \<^verbatim>\<open>NULL\<close>, and a cell it does not list reads as \<^verbatim>\<open>NULL\<close>; the character types
  are \<^verbatim>\<open>text\<close>, \<^verbatim>\<open>varchar\<close>, \<^verbatim>\<open>bpchar\<close> and \<^verbatim>\<open>name\<close>; there are no triggers and no cascading
  foreign keys; a \<^verbatim>\<open>gp_market_id\<close> that is itself an array or an object matches no market
  identifier.
\<close>

datatype cell = CNull | CText string | CJsonb json

type_synonym row = "(string \<times> cell) list"

record table =
  columns :: "(string \<times> string) list"
  rows :: "row list"

text \<open>
  The two \<^verbatim>\<open>WHERE\<close> clauses the code builds, with their parameter:
  \<^verbatim>\<open>"<column>" ->> 'gp_market_id' = $1\<close> and \<^verbatim>\<open>sales_channel_id = ANY($1::text[])\<close>.
\<close>

datatype whereClause = MarketScope string string | ChannelScope "string list"

datatype stmt =
    Begin
  | Commit
  | Rollback
  | CreateStorageTable
  | SelectStored string string
  | DeleteStored string string
  | Upsert string string Section string json
  | SelectJsonbColumns
  | SelectTableExists string
  | SelectSalesChannelIds string
  | SelectCount string whereClause
  | SelectFrom string whereClause
  | DeleteFrom string whereClause

datatype event =
    Connect
  | Query stmt
  | Release
  | PoolEnd
  | Question string
  | LogLine string
  | MkDir string
  | WriteFile string

record ExportMeta =
  generated_at :: string
  schema_version :: string
  meta_instance_id :: string
  meta_market_id :: string

record ExportPayload =
  meta :: ExportMeta
  payload_market :: json
  payload_products :: json
  payload_vendors :: "(string \<times> json) list"
  db_snapshot :: "(string \<times> row list) list"

record world =
  storage :: "(string \<times> string \<times> StoredRow) list option"
  tables :: "(string \<times> table) list"
  files :: "(string \<times> ExportPayload) list"
  trace :: "event list"

text \<open>
  What the host supplies besides the arguments: the repository root found by
  \<^verbatim>\<open>detectRepoRoot\<close>, the working directory, the clock (\<^verbatim>\<open>new Date().toISOString()\<close>), and
  the line typed at the confirmation prompt.
\<close>

record Host =
  repoRoot :: string
  cwd :: string
  nowIso :: string
  entered :: string

text \<open>
  An asynchronous function of the source is a function of the world that returns a
  value or throws, and the world after it.
\<close>

type_synonym 'a io = "world \<Rightarrow> (error + 'a) \<times> world"

definition ret :: "'a \<Rightarrow> 'a io" where
  "ret x w = (Inr x, w)"

definition throw :: "error \<Rightarrow> 'a io" where
  "throw e w = (Inl e, w)"

definition andThen :: "'a io \<Rightarrow> ('a \<Rightarrow> 'b io) \<Rightarrow> 'b io" where
  "andThen m f w = (case m w of (Inl e, w') \<Rightarrow> (Inl e, w') | (Inr x, w') \<Rightarrow> f x w')"

definition liftE :: "error + 'a \<Rightarrow> 'a io" where
  "liftE r w = (r, w)"

definition emit :: "event list \<Rightarrow> unit io" where
  "emit evs w = (Inr (), w\<lparr>trace := trace w @ evs\<rparr>)"

definition query :: "stmt \<Rightarrow> unit io" where
  "query s = emit [Query s]"

text \<open>A \<^verbatim>\<open>for\<close> loop with \<^verbatim>\<open>await\<close> in its body: it stops at the first throw.\<close>

fun forEach :: "('a \<Rightarrow> 's \<Rightarrow> 's io) \<Rightarrow> 'a list \<Rightarrow> 's \<Rightarrow> 's io" where
  "forEach body [] s w = (Inr s, w)"
| "forEach body (x # xs) s w =
     (case body x s w of
        (Inl e, w') \<Rightarrow> (Inl e, w')
      | (Inr s', w') \<Rightarrow> forEach body xs s' w')"

definition STORAGE_TABLE :: string where
  "STORAGE_TABLE = ''gp_market_runtime_config''"

definition CHANNEL_ASSIGNMENT_TABLES :: "string list" where
  "CHANNEL_ASSIGNMENT_TABLES =
     [''product_sales_channel'', ''publishable_api_key_sales_channel'',
      ''sales_channel_stock_location'']"

text \<open>\<^verbatim>\<open>quoteIdent\<close>: the identifier must match \<^verbatim>\<open>/^[a-zA-Z_][a-zA-Z0-9_]*$/\<close>.\<close>

definition identStart :: "char \<Rightarrow> bool" where
  "identStart c \<longleftrightarrow>
     c \<in> set ''abcdefghijklmnopqrstuvwxyzABCDEFGHIJKLMNOPQRSTUVWXYZ_''"

definition identChar :: "char \<Rightarrow> bool" where
  "identChar c \<longleftrightarrow> identStart c \<or> c \<in> set ''0123456789''"

definition quoteIdent :: "string \<Rightarrow> error + string" where
  "quoteIdent ident =
     (case ident of
        [] \<Rightarrow> Inl (InvalidSqlIdentifier ident)
      | c # cs \<Rightarrow>
          if identStart c \<and> list_all identChar cs then Inr (''\"'' @ ident @ ''\"'')
          else Inl (InvalidSqlIdentifier ident))"

text \<open>
  The text that \<^verbatim>\<open>->>\<close> returns for a JSON value: SQL \<^verbatim>\<open>NULL\<close> (\<open>None\<close>) for \<^verbatim>\<open>null\<close>, the
  string itself, the literal of a number or a boolean.
\<close>

fun showNat :: "nat \<Rightarrow> string" where
  "showNat n =
     (if n < 10 then [char_of (48 + n)] else showNat (n div 10) @ [char_of (48 + n mod 10)])"

declare showNat.simps [simp del]

definition showInt :: "int \<Rightarrow> string" where
  "showInt i = (if i < 0 then CHR ''-'' # showNat (nat (- i)) else showNat (nat i))"

fun fieldText :: "json \<Rightarrow> string option" where
  "fieldText JNull = None"
| "fieldText (JStr s) = Some s"
| "fieldText (JBool b) = Some (if b then ''true'' else ''false'')"
| "fieldText (JNum n) = Some (showInt n)"
| "fieldText (JArr xs) = None"
| "fieldText (JObj kvs) = None"

text \<open>\<^verbatim>\<open>cell ->> 'gp_market_id'\<close>.\<close>

definition marketOf :: "cell \<Rightarrow> string option" where
  "marketOf c =
     (case c of
        CJsonb (JObj kvs) \<Rightarrow>
          (case map_of kvs ''gp_market_id'' of Some v \<Rightarrow> fieldText v | None \<Rightarrow> None)
      | _ \<Rightarrow> None)"

fun matches :: "whereClause \<Rightarrow> row \<Rightarrow> bool" where
  "matches (MarketScope columnName mid) r =
     (case map_of r columnName of Some c \<Rightarrow> marketOf c = Some mid | None \<Rightarrow> False)"
| "matches (ChannelScope ids) r =
     (case map_of r ''sales_channel_id'' of Some (CText s) \<Rightarrow> s \<in> set ids | _ \<Rightarrow> False)"

text \<open>
  Whether the clause can be evaluated on the table at all: \<^verbatim>\<open>->>\<close> needs a column of type
  \<^verbatim>\<open>json\<close> or \<^verbatim>\<open>jsonb\<close>, and \<^verbatim>\<open>= ANY($1::text[])\<close> a column of a character type. When it
  cannot, PostgreSQL raises (\<^verbatim>\<open>column ... does not exist\<close>, \<^verbatim>\<open>operator does not exist\<close>) before
  it looks at any row.
\<close>

definition jsonTypes :: "string list" where
  "jsonTypes = [''json'', ''jsonb'']"

definition textTypes :: "string list" where
  "textTypes = [''text'', ''varchar'', ''bpchar'', ''name'']"

fun whereOk :: "table \<Rightarrow> whereClause \<Rightarrow> bool" where
  "whereOk t (MarketScope columnName mid) =
     (case map_of (columns t) columnName of Some udt \<Rightarrow> udt \<in> set jsonTypes | None \<Rightarrow> False)"
| "whereOk t (ChannelScope ids) =
     (case map_of (columns t) ''sales_channel_id'' of
        Some udt \<Rightarrow> udt \<in> set textTypes | None \<Rightarrow> False)"

definition hasTable :: "world \<Rightarrow> string \<Rightarrow> bool" where
  "hasTable w tableName \<longleftrightarrow>
     map_of (tables w) tableName \<noteq> None \<or> (tableName = STORAGE_TABLE \<and> storage w \<noteq> None)"

definition tableExists :: "string \<Rightarrow> bool io" where
  "tableExists tableName =
     andThen (query (SelectTableExists tableName)) (\<lambda>u w. (Inr (hasTable w tableName), w))"

text \<open>
  \<^verbatim>\<open>countRows\<close>, \<^verbatim>\<open>selectRows\<close>, \<^verbatim>\<open>deleteRows\<close>. \<^verbatim>\<open>quoteIdent(tableName)\<close> is evaluated while
  the statement is built, so an invalid name throws before anything is sent.
\<close>

definition countRows :: "string \<Rightarrow> whereClause \<Rightarrow> nat io" where
  "countRows tableName wh =
     (case quoteIdent tableName of
        Inl e \<Rightarrow> throw e
      | Inr q \<Rightarrow>
          andThen (query (SelectCount tableName wh))
            (\<lambda>u w. case map_of (tables w) tableName of
                      None \<Rightarrow> (Inl (SqlError tableName), w)
                    | Some t \<Rightarrow>
                        if \<not> whereOk t wh then (Inl (SqlError tableName), w)
                        else (Inr (length (filter (matches wh) (rows t))), w)))"

definition selectRows :: "string \<Rightarrow> whereClause \<Rightarrow> row list io" where
  "selectRows tableName wh =
     (case quoteIdent tableName of
        Inl e \<Rightarrow> throw e
      | Inr q \<Rightarrow>
          andThen (query (SelectFrom tableName wh))
            (\<lambda>u w. case map_of (tables w) tableName of
                      None \<Rightarrow> (Inl (SqlError tableName), w)
                    | Some t \<Rightarrow>
                        if \<not> whereOk t wh then (Inl (SqlError tableName), w)
                        else (Inr (filter (matches wh) (rows t)), w)))"

definition deleteRows :: "string \<Rightarrow> whereClause \<Rightarrow> nat io" where
  "deleteRows tableName wh =
     (case quoteIdent tableName of
        Inl e \<Rightarrow> throw e
      | Inr q \<Rightarrow>
          andThen (query (DeleteFrom tableName wh))
            (\<lambda>u w. case map_of (tables w) tableName of
                      None \<Rightarrow> (Inl (SqlError tableName), w)
                    | Some t \<Rightarrow>
                        if \<not> whereOk t wh then (Inl (SqlError tableName), w)
                        else
                          (Inr (length (filter (matches wh) (rows t))),
                           w\<lparr>tables := objSet (tables w) tableName
                                          (t\<lparr>rows := filter (\<lambda>r. \<not> matches wh r) (rows t)\<rparr>)\<rparr>)))"

text \<open>
  \<^verbatim>\<open>String(row.id)\<close> for the \<^verbatim>\<open>id\<close> column of \<^verbatim>\<open>sales_channel\<close>; \<^verbatim>\<open>filter(Boolean)\<close> then
  drops the empty strings. The statement \<^verbatim>\<open>SELECT id FROM public.sales_channel WHERE
  metadata ->> 'gp_market_id' = $1\<close> raises when the table has no column \<^verbatim>\<open>id\<close> or no JSON
  column \<^verbatim>\<open>metadata\<close>.
\<close>

definition rowIdString :: "row \<Rightarrow> string" where
  "rowIdString r =
     (case map_of r ''id'' of
        Some (CText s) \<Rightarrow> s
      | Some CNull \<Rightarrow> ''null''
      | Some (CJsonb j) \<Rightarrow> ''[object Object]''
      | None \<Rightarrow> ''undefined'')"

definition getScopedSalesChannelIds :: "string \<Rightarrow> string list io" where
  "getScopedSalesChannelIds mid =
     andThen (tableExists ''sales_channel'')
       (\<lambda>exists.
          if \<not> exists then ret []
          else
            andThen (query (SelectSalesChannelIds mid))
              (\<lambda>u w. case map_of (tables w) ''sales_channel'' of
                        None \<Rightarrow> (Inl (SqlError ''sales_channel''), w)
                      | Some t \<Rightarrow>
                          if map_of (columns t) ''id'' = None
                             \<or> \<not> whereOk t (MarketScope ''metadata'' mid)
                          then (Inl (SqlError ''sales_channel''), w)
                          else
                            (Inr (filter (\<lambda>s. s \<noteq> [])
                                    (map rowIdString
                                       (filter (matches (MarketScope ''metadata'' mid)) (rows t)))),
                             w)))"

record ScopedMetadataTable =
  tableName :: string
  columnName :: string

text \<open>
  The result of the query on \<^verbatim>\<open>information_schema.columns\<close>: every \<^verbatim>\<open>jsonb\<close> column of a
  public table, the processor's own \<^verbatim>\<open>data\<close> column included, ordered by table name and
  column name.
\<close>

definition jsonbColumns :: "world \<Rightarrow> (string \<times> string) list" where
  "jsonbColumns w =
     sort (concat (map (\<lambda>(name, t). map (\<lambda>(c, udt). (name, c))
                                       (filter (\<lambda>(c, udt). udt = ''jsonb'') (columns t)))
                     (tables w))
           @ (if storage w \<noteq> None then [(STORAGE_TABLE, ''data'')] else []))"

definition discoverMetadataScopedTables :: "string \<Rightarrow> ScopedMetadataTable list io" where
  "discoverMetadataScopedTables mid =
     andThen (query SelectJsonbColumns)
       (\<lambda>u w. forEach
                 (\<lambda>(table_name, column_name) discovered.
                    if table_name = STORAGE_TABLE then ret discovered
                    else
                      (case quoteIdent column_name of
                         Inl e \<Rightarrow> throw e
                       | Inr q \<Rightarrow>
                           andThen (countRows table_name (MarketScope column_name mid))
                             (\<lambda>count.
                                ret (if count > 0
                                     then discovered @ [\<lparr>tableName = table_name,
                                                         columnName = column_name\<rparr>]
                                     else discovered))))
                 (jsonbColumns w) [] w)"

text \<open>
  \<^verbatim>\<open>buildScopedDeleteOrder\<close>. A JavaScript \<^verbatim>\<open>Set\<close> keeps the first insertion of every
  element, in insertion order.
\<close>

fun setAdd :: "'a list \<Rightarrow> 'a \<Rightarrow> 'a list" where
  "setAdd unique x = (if x \<in> set unique then unique else unique @ [x])"

definition buildScopedDeleteOrder :: "string list \<Rightarrow> string list \<Rightarrow> string list" where
  "buildScopedDeleteOrder metadataTables assignmentTables =
     (let unique = foldl setAdd (foldl setAdd [] assignmentTables) metadataTables;
          withoutSalesChannel = filter (\<lambda>t. t \<noteq> ''sales_channel'') unique
      in if ''sales_channel'' \<in> set unique then withoutSalesChannel @ [''sales_channel'']
         else withoutSalesChannel)"


subsection \<open>Scoped snapshot and scoped deletion\<close>

text \<open>
  The assignment tables that exist, looked for only when the market has sales channels
  (the \<^verbatim>\<open>for\<close> loop over \<^verbatim>\<open>CHANNEL_ASSIGNMENT_TABLES\<close> in \<^verbatim>\<open>deleteScopedDbConfig\<close>).
\<close>

definition existingAssignmentTables :: "string list \<Rightarrow> string list io" where
  "existingAssignmentTables salesChannelIds =
     (if salesChannelIds \<noteq> [] then
        forEach (\<lambda>name assignmentTables.
                   andThen (tableExists name)
                     (\<lambda>exists. ret (if exists then assignmentTables @ [name]
                                     else assignmentTables)))
          CHANNEL_ASSIGNMENT_TABLES []
      else ret [])"

text \<open>The body of the loop over \<^verbatim>\<open>deleteOrder\<close>; the state is the report.\<close>

definition deleteStep ::
  "CliArgs \<Rightarrow> ScopedMetadataTable list \<Rightarrow> string list \<Rightarrow> string list
     \<Rightarrow> string \<Rightarrow> Report \<Rightarrow> Report io" where
  "deleteStep args metadataScoped salesChannelIds assignmentTables name report =
     (if name \<in> set assignmentTables then
        (if salesChannelIds = [] then ret report
         else
           andThen (if dryRun args then countRows name (ChannelScope salesChannelIds)
                    else deleteRows name (ChannelScope salesChannelIds))
             (\<lambda>n. ret (report\<lparr>deleted := deleted report + n\<rparr>)))
      else
        (case find (\<lambda>m. tableName m = name) metadataScoped of
           None \<Rightarrow> ret report
         | Some metadata \<Rightarrow>
             (case quoteIdent (columnName metadata) of
                Inl e \<Rightarrow> throw e
              | Inr q \<Rightarrow>
                  andThen (if dryRun args
                           then countRows name (MarketScope (columnName metadata) (marketId args))
                           else deleteRows name (MarketScope (columnName metadata) (marketId args)))
                    (\<lambda>n. ret (report\<lparr>deleted := deleted report + n\<rparr>)))))"

definition deleteScopedDbConfig :: "CliArgs \<Rightarrow> Report \<Rightarrow> Report io" where
  "deleteScopedDbConfig args report =
     andThen (discoverMetadataScopedTables (marketId args))
       (\<lambda>metadataScoped.
          andThen (getScopedSalesChannelIds (marketId args))
            (\<lambda>salesChannelIds.
               andThen (existingAssignmentTables salesChannelIds)
                 (\<lambda>assignmentTables.
                    forEach (deleteStep args metadataScoped salesChannelIds assignmentTables)
                      (buildScopedDeleteOrder (map tableName metadataScoped) assignmentTables)
                      report)))"

definition exportScopedDbSnapshot ::
  "string \<Rightarrow> ((string \<times> row list) list \<times> string list) io" where
  "exportScopedDbSnapshot mid =
     andThen (discoverMetadataScopedTables mid)
       (\<lambda>metadataScoped.
          andThen (getScopedSalesChannelIds mid)
            (\<lambda>salesChannelIds.
               andThen (forEach
                          (\<lambda>entry snapshot.
                             (case quoteIdent (columnName entry) of
                                Inl e \<Rightarrow> throw e
                              | Inr q \<Rightarrow>
                                  andThen (selectRows (tableName entry)
                                             (MarketScope (columnName entry) mid))
                                    (\<lambda>rs. ret (objSet snapshot (tableName entry) rs))))
                          metadataScoped [])
                 (\<lambda>snapshot1.
                    andThen (if salesChannelIds \<noteq> [] then
                               forEach
                                 (\<lambda>name snapshot.
                                    andThen (tableExists name)
                                      (\<lambda>exists.
                                         if \<not> exists then ret snapshot
                                         else
                                           andThen (selectRows name (ChannelScope salesChannelIds))
                                             (\<lambda>rs. ret (objSet snapshot name rs))))
                                 CHANNEL_ASSIGNMENT_TABLES snapshot1
                             else ret snapshot1)
                      (\<lambda>snapshot. ret (snapshot, sort (map fst snapshot))))))"

subsection \<open>The processor's own table\<close>

definition ensureStorageTable :: "unit io" where
  "ensureStorageTable =
     andThen (query CreateStorageTable)
       (\<lambda>u w. (Inr (), if storage w = None then w\<lparr>storage := Some []\<rparr> else w))"

definition inScope :: "string \<Rightarrow> string \<Rightarrow> string \<times> string \<times> StoredRow \<Rightarrow> bool" where
  "inScope iid mid r \<longleftrightarrow> fst r = iid \<and> fst (snd r) = mid"

definition getExistingRows :: "string \<Rightarrow> string \<Rightarrow> StoredRow list io" where
  "getExistingRows iid mid =
     andThen (query (SelectStored iid mid))
       (\<lambda>u w. case storage w of
                 None \<Rightarrow> (Inl (SqlError STORAGE_TABLE), w)
               | Some stored \<Rightarrow> (Inr (map (\<lambda>r. snd (snd r)) (filter (inScope iid mid) stored)), w))"

text \<open>
  \<^verbatim>\<open>INSERT ... ON CONFLICT (instance_id, market_id, section, record_key) DO UPDATE\<close>: the
  row with the same primary key gets the new data, or the row is added.
\<close>

fun upsertStored ::
  "(string \<times> string \<times> StoredRow) list \<Rightarrow> string \<Rightarrow> string \<Rightarrow> StoredRow
     \<Rightarrow> (string \<times> string \<times> StoredRow) list" where
  "upsertStored [] iid mid new = [(iid, mid, new)]"
| "upsertStored ((i, m, old) # stored) iid mid new =
     (if i = iid \<and> m = mid \<and> row_section old = row_section new \<and> record_key old = record_key new
      then (i, m, new) # stored
      else (i, m, old) # upsertStored stored iid mid new)"

definition upsertRow :: "string \<Rightarrow> string \<Rightarrow> Section \<Rightarrow> string \<Rightarrow> json \<Rightarrow> unit io" where
  "upsertRow iid mid sec recordKey value =
     andThen (query (Upsert iid mid sec recordKey value))
       (\<lambda>u w. case storage w of
                 None \<Rightarrow> (Inl (SqlError STORAGE_TABLE), w)
               | Some stored \<Rightarrow>
                   (Inr (),
                    w\<lparr>storage := Some (upsertStored stored iid mid
                                          \<lparr>row_section = sec, record_key = recordKey,
                                           data = value\<rparr>)\<rparr>))"

text \<open>\<^verbatim>\<open>DELETE FROM gp_market_runtime_config WHERE instance_id = $1 AND market_id = $2\<close>.\<close>

definition deleteStored :: "string \<Rightarrow> string \<Rightarrow> unit io" where
  "deleteStored iid mid =
     andThen (query (DeleteStored iid mid))
       (\<lambda>u w. case storage w of
                 None \<Rightarrow> (Inl (SqlError STORAGE_TABLE), w)
               | Some stored \<Rightarrow>
                   (Inr (), w\<lparr>storage := Some (filter (\<lambda>r. \<not> inScope iid mid r) stored)\<rparr>))"

subsection \<open>The four operations\<close>

definition sectionName :: "Section \<Rightarrow> string" where
  "sectionName s = (case s of Market \<Rightarrow> ''market'' | Products \<Rightarrow> ''products''
                    | VendorProducts \<Rightarrow> ''vendor_products'')"

text \<open>The key \<^verbatim>\<open>`${r.section}:${r.record_key}`\<close> of \<^verbatim>\<open>existingMap\<close>.\<close>

definition rowKey :: "StoredRow \<Rightarrow> string" where
  "rowKey r = sectionName (row_section r) @ '':'' @ record_key r"

text \<open>\<^verbatim>\<open>new Map(existingRows.map(...))\<close>: a later row with the same key replaces the earlier.\<close>

definition existingMapOf :: "StoredRow list \<Rightarrow> (string \<rightharpoonup> StoredRow)" where
  "existingMapOf existingRows = map_of (rev (map (\<lambda>r. (rowKey r, r)) existingRows))"

definition fillStep ::
  "CliArgs \<Rightarrow> (string \<rightharpoonup> StoredRow) \<Rightarrow> StoredRow \<Rightarrow> Report \<Rightarrow> Report io" where
  "fillStep args existingMap incoming report =
     (case existingMap (rowKey incoming) of
        None \<Rightarrow>
          andThen (if \<not> dryRun args
                   then upsertRow (instanceId args) (marketId args) (row_section incoming)
                          (record_key incoming) (data incoming)
                   else ret ())
            (\<lambda>u. ret (report\<lparr>inserted := inserted report + 1\<rparr>))
      | Some existing \<Rightarrow>
          (let merged = mergeFill (data existing) (data incoming)
           in if snd merged then
                andThen (if \<not> dryRun args
                         then upsertRow (instanceId args) (marketId args) (row_section incoming)
                                (record_key incoming) (fst merged)
                         else ret ())
                  (\<lambda>u. ret (report\<lparr>updated := updated report + 1\<rparr>))
              else ret (report\<lparr>skipped := skipped report + 1\<rparr>)))"

definition executeFill :: "CliArgs \<Rightarrow> InputConfig \<Rightarrow> Report \<Rightarrow> Report io" where
  "executeFill args input report =
     andThen (getExistingRows (instanceId args) (marketId args))
       (\<lambda>existingRows.
          forEach (fillStep args (existingMapOf existingRows)) (makeIncomingRows input) report)"

definition insertStep :: "CliArgs \<Rightarrow> StoredRow \<Rightarrow> Report \<Rightarrow> Report io" where
  "insertStep args r report =
     andThen (if \<not> dryRun args
              then upsertRow (instanceId args) (marketId args) (row_section r) (record_key r) (data r)
              else ret ())
       (\<lambda>u. ret (report\<lparr>inserted := inserted report + 1\<rparr>))"

definition executeOverwrite :: "CliArgs \<Rightarrow> InputConfig \<Rightarrow> Report \<Rightarrow> Report io" where
  "executeOverwrite args input report =
     andThen (getExistingRows (instanceId args) (marketId args))
       (\<lambda>existingRows.
          andThen (if \<not> dryRun args then deleteStored (instanceId args) (marketId args) else ret ())
            (\<lambda>u. andThen (deleteScopedDbConfig args
                            (report\<lparr>deleted := deleted report + length existingRows\<rparr>))
                    (\<lambda>report'. forEach (insertStep args) (makeIncomingRows input) report')))"

definition executeDelete :: "CliArgs \<Rightarrow> Report \<Rightarrow> Report io" where
  "executeDelete args report =
     andThen (getExistingRows (instanceId args) (marketId args))
       (\<lambda>existingRows.
          andThen (if \<not> dryRun args then deleteStored (instanceId args) (marketId args) else ret ())
            (\<lambda>u. deleteScopedDbConfig args
                    (report\<lparr>deleted := deleted report + length existingRows\<rparr>)))"

text \<open>\<^verbatim>\<open>path.resolve\<close> of one path: an absolute path stays, a relative one is under \<open>cwd\<close>.\<close>

definition pathResolve :: "Host \<Rightarrow> string \<Rightarrow> string" where
  "pathResolve host p = (case p of CHR ''/'' # rest \<Rightarrow> p | _ \<Rightarrow> pathJoin (cwd host) p)"

definition pathDirname :: "string \<Rightarrow> string" where
  "pathDirname p = rev (drop 1 (dropWhile (\<lambda>c. c \<noteq> CHR ''/'') (rev p)))"

definition defaultExportPath :: "Host \<Rightarrow> string \<Rightarrow> string \<Rightarrow> string" where
  "defaultExportPath host iid mid =
     (let timestamp = map (\<lambda>c. if c = CHR '':'' \<or> c = CHR ''.'' then CHR ''-'' else c) (nowIso host)
      in foldl pathJoin (repoRoot host)
           [''GP'', ''export'', ''config'', iid, ''markets'', mid,
            ''export-'' @ timestamp @ ''.yaml''])"

definition executeExport :: "Host \<Rightarrow> CliArgs \<Rightarrow> Report \<Rightarrow> Report io" where
  "executeExport host args report =
     andThen (getExistingRows (instanceId args) (marketId args))
       (\<lambda>existingRows.
          let marketDoc = map_option data
                (find (\<lambda>r. row_section r = Market \<and> record_key r = ''market'') existingRows);
              productsDoc = map_option data
                (find (\<lambda>r. row_section r = Products \<and> record_key r = ''products'') existingRows);
              vendorRows = filter (\<lambda>r. row_section r = VendorProducts) existingRows;
              vendorDocs = foldl (\<lambda>acc r. objSet acc (record_key r) (data r)) [] vendorRows
          in andThen (exportScopedDbSnapshot (marketId args))
               (\<lambda>(snapshot, tableNames).
                  let exportPayload =
                        \<lparr>meta = \<lparr>generated_at = nowIso host,
                                 schema_version = ''market-runtime-config.v1'',
                                 meta_instance_id = instanceId args,
                                 meta_market_id = marketId args\<rparr>,
                         payload_market = (case marketDoc of Some d \<Rightarrow> d | None \<Rightarrow> JNull),
                         payload_products = (case productsDoc of Some d \<Rightarrow> d | None \<Rightarrow> JNull),
                         payload_vendors = vendorDocs,
                         db_snapshot = snapshot\<rparr>;
                      outPath = (case outputPath args of
                                   None \<Rightarrow> defaultExportPath host (instanceId args) (marketId args)
                                 | Some p \<Rightarrow>
                                     if p = [] then defaultExportPath host (instanceId args) (marketId args)
                                     else pathResolve host p);
                      report1 = report\<lparr>exported_tables := Some tableNames,
                                        output_path := Some outPath\<rparr>
                  in if dryRun args then ret (report1\<lparr>skipped := length existingRows\<rparr>)
                     else
                       andThen (emit [MkDir (pathDirname outPath), WriteFile outPath])
                         (\<lambda>u w. (Inr (report1\<lparr>inserted := length existingRows\<rparr>),
                                  w\<lparr>files := objSet (files w) outPath exportPayload\<rparr>))))"

subsection \<open>Transactions and the command line\<close>

text \<open>
  \<^verbatim>\<open>withTransaction\<close>: \<^verbatim>\<open>BEGIN\<close>, the action, \<^verbatim>\<open>COMMIT\<close>; when the action throws, \<^verbatim>\<open>ROLLBACK\<close>
  puts the database back to its state at \<^verbatim>\<open>BEGIN\<close> and the error goes on. The client is
  released either way.
\<close>

definition withTransaction :: "'a io \<Rightarrow> 'a io" where
  "withTransaction action w =
     (let w1 = snd (emit [Connect, Query Begin] w)
      in case action w1 of
           (Inr x, w2) \<Rightarrow> (Inr x, snd (emit [Query Commit, Release] w2))
         | (Inl e, w2) \<Rightarrow>
             (Inl e, snd (emit [Query Rollback, Release]
                            (w2\<lparr>storage := storage w1, tables := tables w1\<rparr>))))"

definition requireInteractiveDeleteConfirmation :: "Host \<Rightarrow> CliArgs \<Rightarrow> unit io" where
  "requireInteractiveDeleteConfirmation host args =
     (if operation args \<noteq> Delete \<or> force args then ret ()
      else if \<not> confirm args then throw DeleteRequiresConfirm
      else
        andThen (emit [Question (marketId args)])
          (\<lambda>u. if trim (entered host) \<noteq> marketId args then throw ConfirmationMismatch
                else ret ()))"

definition priority :: "LogLevel \<Rightarrow> nat" where
  "priority l = (case l of Debug \<Rightarrow> 10 | Info \<Rightarrow> 20 | Warn \<Rightarrow> 30)"

definition logMessage :: "CliArgs \<Rightarrow> LogLevel \<Rightarrow> string \<Rightarrow> unit io" where
  "logMessage args level message =
     (if priority level < priority (logLevel args) then ret () else emit [LogLine message])"

text \<open>\<^verbatim>\<open>try { ... } finally { await pool.end() }\<close>.\<close>

definition tryFinally :: "'a io \<Rightarrow> unit io \<Rightarrow> 'a io" where
  "tryFinally body cleanup w = (case body w of (r, w') \<Rightarrow> (r, snd (cleanup w')))"

definition initialReport :: "CliArgs \<Rightarrow> Report" where
  "initialReport args =
     \<lparr>ok = True, report_operation = operation args, instance_id = instanceId args,
      market_id = marketId args, dry_run = dryRun args, inserted = 0, updated = 0,
      skipped = 0, deleted = 0, report_warnings = [], output_path = None,
      exported_tables = None\<rparr>"

text \<open>\<^verbatim>\<open>args.dbUrl || process.env.DATABASE_URL\<close>, and the test \<^verbatim>\<open>!dbUrl\<close>.\<close>

definition resolveDbUrl :: "Env \<Rightarrow> CliArgs \<Rightarrow> string option" where
  "resolveDbUrl env args =
     (let truthyString = (\<lambda>s. case s of Some (c # cs) \<Rightarrow> Some (c # cs) | _ \<Rightarrow> None)
      in case truthyString (dbUrl args) of
           Some u \<Rightarrow> Some u
         | None \<Rightarrow> truthyString (DATABASE_URL env))"

definition runCli :: "Host \<Rightarrow> Env \<Rightarrow> Schemas \<Rightarrow> ConfigTree \<Rightarrow> CliArgs \<Rightarrow> Report io" where
  "runCli host env schemas tree args =
     andThen (liftE (ensureSafeDestructiveOperation env args))
       (\<lambda>u1. andThen (liftE (requireConfirmFlags args))
         (\<lambda>u2. andThen (requireInteractiveDeleteConfirmation host args)
           (\<lambda>u3. case resolveDbUrl env args of
                    None \<Rightarrow> throw DatabaseUrlRequired
                  | Some url \<Rightarrow>
                      tryFinally
                        (if operation args = Export then
                           withTransaction
                             (andThen ensureStorageTable
                                (\<lambda>u. executeExport host args (initialReport args)))
                         else
                           andThen (liftE (loadInputConfig args schemas tree))
                             (\<lambda>input.
                                let report = (initialReport args)
                                               \<lparr>report_warnings := warnings input\<rparr>
                                in andThen (if dryRun args
                                            then logMessage args Info
                                                   ''Dry-run enabled: no database writes will be performed.''
                                            else ret ())
                                     (\<lambda>u. withTransaction
                                            (andThen ensureStorageTable
                                               (\<lambda>u. if operation args = Fill
                                                       then executeFill args input report
                                                     else if operation args = Overwrite
                                                       then executeOverwrite args input report
                                                     else executeDelete args report)))))
                        (emit [PoolEnd]))))"


subsection \<open>Auxiliary notions for the statements\<close>

text \<open>
  \<open>firstOcc acc xs\<close>: the elements of \<open>xs\<close> that are not in \<open>acc\<close>, each at its first
  occurrence; what adding \<open>xs\<close> to a \<^verbatim>\<open>Set\<close> that holds \<open>acc\<close> appends.
\<close>

fun firstOcc :: "'a list \<Rightarrow> 'a list \<Rightarrow> 'a list" where
  "firstOcc acc [] = []"
| "firstOcc acc (x # xs) = (if x \<in> set acc then firstOcc acc xs else x # firstOcc (acc @ [x]) xs)"


text \<open>
  Reading the processor's table: its rows (none while the table does not exist), the
  rows under one primary key, the rows \<^verbatim>\<open>getExistingRows\<close> returns, and the test that
  \<open>fillStep\<close> makes before it counts an incoming row as skipped.
\<close>

definition storedRows :: "world \<Rightarrow> (string \<times> string \<times> StoredRow) list" where
  "storedRows w = (case storage w of None \<Rightarrow> [] | Some stored \<Rightarrow> stored)"

definition hasKey :: "string \<Rightarrow> string \<Rightarrow> Section \<Rightarrow> string \<Rightarrow> string \<times> string \<times> StoredRow \<Rightarrow> bool" where
  "hasKey iid mid sec k r \<longleftrightarrow>
     fst r = iid \<and> fst (snd r) = mid \<and> row_section (snd (snd r)) = sec \<and> record_key (snd (snd r)) = k"

definition rowsAt :: "world \<Rightarrow> string \<Rightarrow> string \<Rightarrow> Section \<Rightarrow> string \<Rightarrow> (string \<times> string \<times> StoredRow) list" where
  "rowsAt w iid mid sec k = filter (hasKey iid mid sec k) (storedRows w)"

definition existingRowsOf :: "world \<Rightarrow> CliArgs \<Rightarrow> StoredRow list" where
  "existingRowsOf w args =
     map (\<lambda>r. snd (snd r)) (filter (inScope (instanceId args) (marketId args)) (storedRows w))"

definition countedSkipped :: "world \<Rightarrow> CliArgs \<Rightarrow> StoredRow \<Rightarrow> bool" where
  "countedSkipped w args incoming \<longleftrightarrow>
     (case existingMapOf (existingRowsOf w args) (rowKey incoming) of
        None \<Rightarrow> False
      | Some existing \<Rightarrow> \<not> snd (mergeFill (data existing) (data incoming)))"

text \<open>The warnings the loader records for missing files, in the order it records them.\<close>

definition missingFileWarnings :: "CliArgs \<Rightarrow> ConfigTree \<Rightarrow> string list" where
  "missingFileWarnings args tree =
     (if marketYaml tree = None then [''Missing file: '' @ marketYamlPath args] else [])
     @ (if productsYaml tree = None then [''Missing file: '' @ productsYamlPath args] else [])
     @ (case vendorsDir tree of
          None \<Rightarrow> []
        | Some entries \<Rightarrow>
            map (\<lambda>e. ''Missing file: ''
                       @ pathJoin (pathJoin (vendorsDirPath args) (entryName e)) ''products.yaml'')
              (filter (\<lambda>e. isDirectory e \<and> vendorProductsYaml e = None) entries))"


subsection \<open>Example inputs\<close>

text \<open>
  Concrete arguments, trees and databases used to instantiate the theorems: instance
  \<^verbatim>\<open>gp-dev\<close>, market \<^verbatim>\<open>bonbeauty\<close>.
\<close>

definition devArgs :: CliArgs where
  "devArgs = \<lparr>instanceId = ''gp-dev'', marketId = ''bonbeauty'', operation = Fill,
     configRoot = ''/cfg'', dbUrl = Some ''postgres://db'', outputPath = None,
     confirm = False, force = False, dryRun = False, logLevel = Info\<rparr>"

definition acceptAll :: Schemas where
  "acceptAll = \<lparr>marketSchema = (\<lambda>d. True), productsSchema = (\<lambda>d. True),
     vendorProductsSchema = (\<lambda>d. True)\<rparr>"

definition vendorDoc :: json where
  "vendorDoc = JObj [(''vendor_id'', JStr ''acme''), (''products'', JArr [])]"

definition vendorTree :: ConfigTree where
  "vendorTree =
     \<lparr>instanceYaml = Some (Loaded (JObj [(''instance_id'', JStr ''gp-dev''),
                        (''markets'', JArr [JObj [(''market_id'', JStr ''bonbeauty'')]])])),
      marketYaml = Some (Loaded (JObj [(''market_id'', JStr ''bonbeauty'')])),
      productsYaml = Some (Loaded (JObj [(''products'', JArr [])])),
      vendorsDir = Some [\<lparr>entryName = ''v1'', isDirectory = True,
                          vendorProductsYaml = Some (Loaded vendorDoc)\<rparr>]\<rparr>"


definition prodArgs :: CliArgs where
  "prodArgs = devArgs\<lparr>instanceId := ''gp-PROD'', operation := Delete, force := True\<rparr>"

definition exampleHost :: Host where
  "exampleHost = \<lparr>repoRoot = ''/repo'', cwd = ''/repo/GP/backend'',
     nowIso = ''2026-01-01T00:00:00.000Z'', entered = ''bonbeauty''\<rparr>"

definition noEnv :: Env where
  "noEnv = \<lparr>GP_ALLOW_PROD_MUTATIONS = None, DATABASE_URL = None\<rparr>"

definition emptyWorld :: world where
  "emptyWorld = \<lparr>storage = None, tables = [], files = [], trace = []\<rparr>"

definition fillWorld :: world where
  "fillWorld = \<lparr>storage = Some [(''gp-dev'', ''bonbeauty'',
        \<lparr>row_section = Market, record_key = ''market'', data = JObj [(''market_id'', JStr ''bonbeauty'')]\<rparr>)],
     tables = [], files = [], trace = []\<rparr>"

definition vendorInput :: InputConfig where
  "vendorInput = \<lparr>market = Some (JObj [(''market_id'', JStr ''bonbeauty'')]),
            products = Some (JObj [(''products'', JArr [])]),
            vendors = [(''v1'', vendorDoc)], warnings = []\<rparr>"



subsection \<open>Effects of a run\<close>

text \<open>
  The events a run adds to the trace (\<open>newEvents\<close>; \<open>extends\<close> says that the old trace is
  kept), the statements that are DML (\<^verbatim>\<open>INSERT\<close>, \<^verbatim>\<open>UPDATE\<close>, \<^verbatim>\<open>DELETE\<close>) and the file-system
  writes. \<open>quiet w w'\<close>: from \<open>w\<close> to \<open>w'\<close> no row of any table and no file has changed, and
  no DML statement and no file-system write was issued (\<^verbatim>\<open>CREATE TABLE IF NOT EXISTS\<close> is
  DDL, and is issued).
\<close>

fun isDML :: "event \<Rightarrow> bool" where
  "isDML (Query (DeleteStored iid mid)) = True"
| "isDML (Query (Upsert iid mid sec k v)) = True"
| "isDML (Query (DeleteFrom t wh)) = True"
| "isDML e = False"

fun isFileWrite :: "event \<Rightarrow> bool" where
  "isFileWrite (MkDir p) = True"
| "isFileWrite (WriteFile p) = True"
| "isFileWrite e = False"

definition newEvents :: "world \<Rightarrow> world \<Rightarrow> event list" where
  "newEvents w w' = drop (length (trace w)) (trace w')"

definition extends :: "world \<Rightarrow> world \<Rightarrow> bool" where
  "extends w w' \<longleftrightarrow> take (length (trace w)) (trace w') = trace w"

definition quiet :: "world \<Rightarrow> world \<Rightarrow> bool" where
  "quiet w w' \<longleftrightarrow>
     storedRows w' = storedRows w \<and> tables w' = tables w \<and> files w' = files w
     \<and> extends w w' \<and> list_all (\<lambda>e. \<not> isDML e \<and> \<not> isFileWrite e) (newEvents w w')"

text \<open>
  Notions used in the proofs only. \<open>keeps R m\<close>: every run of \<open>m\<close> relates the world
  before to the world after by \<open>R\<close>. \<open>readOnly\<close> strengthens \<open>quiet\<close> by the existence of the
  processor's table. \<open>catalogIO m\<close>: \<open>m\<close> is read-only and its result depends only on the
  external tables and on whether the processor's table exists (\<open>sameCatalog\<close>).
  \<open>fillCount\<close> is the change \<open>fillStep\<close> makes to the report.
\<close>

definition keeps :: "(world \<Rightarrow> world \<Rightarrow> bool) \<Rightarrow> 'a io \<Rightarrow> bool" where
  "keeps R m \<longleftrightarrow> (\<forall>w r w'. m w = (r, w') \<longrightarrow> R w w')"

definition preorder :: "(world \<Rightarrow> world \<Rightarrow> bool) \<Rightarrow> bool" where
  "preorder R \<longleftrightarrow> (\<forall>w. R w w) \<and> (\<forall>a b c. R a b \<longrightarrow> R b c \<longrightarrow> R a c)"

definition readOnly :: "world \<Rightarrow> world \<Rightarrow> bool" where
  "readOnly w w' \<longleftrightarrow> storage w' = storage w \<and> quiet w w'"

definition sameCatalog :: "world \<Rightarrow> world \<Rightarrow> bool" where
  "sameCatalog wa wb \<longleftrightarrow> tables wa = tables wb \<and> (storage wa = None) = (storage wb = None)"

definition pureOn :: "'a io \<Rightarrow> bool" where
  "pureOn m \<longleftrightarrow> (\<forall>wa wb. sameCatalog wa wb \<longrightarrow> fst (m wa) = fst (m wb))"

definition catalogIO :: "'a io \<Rightarrow> bool" where
  "catalogIO m \<longleftrightarrow> keeps readOnly m \<and> pureOn m"



text \<open>
  The database of the delete scenario: three stored rows for \<^verbatim>\<open>(gp-dev, bonbeauty)\<close> and a
  table \<^verbatim>\<open>product\<close> with five rows whose \<^verbatim>\<open>metadata\<close> names the market.
\<close>

definition scopedRow :: "string \<Rightarrow> row" where
  "scopedRow ident =
     [(''id'', CText ident), (''metadata'', CJsonb (JObj [(''gp_market_id'', JStr ''bonbeauty'')]))]"

definition scenarioWorld :: world where
  "scenarioWorld =
     \<lparr>storage = Some
        [(''gp-dev'', ''bonbeauty'',
          \<lparr>row_section = Market, record_key = ''market'', data = JObj [(''market_id'', JStr ''bonbeauty'')]\<rparr>),
         (''gp-dev'', ''bonbeauty'',
          \<lparr>row_section = Products, record_key = ''products'', data = JObj [(''products'', JArr [])]\<rparr>),
         (''gp-dev'', ''bonbeauty'',
          \<lparr>row_section = VendorProducts, record_key = ''v1'', data = vendorDoc\<rparr>)],
      tables = [(''product'',
                 \<lparr>columns = [(''id'', ''text''), (''metadata'', ''jsonb'')],
                  rows = map scopedRow [''p1'', ''p2'', ''p3'', ''p4'', ''p5'']\<rparr>)],
      files = [], trace = []\<rparr>"

definition dryDeleteArgs :: CliArgs where
  "dryDeleteArgs = devArgs\<lparr>operation := Delete, force := True, dryRun := True\<rparr>"


subsection \<open>The rows in the scope of a market\<close>

text \<open>
  What the database holds for a market \<open>m\<close>, told from the tables alone.
  \<^item> \<open>channelIds w m\<close>: the ids of the rows of \<^verbatim>\<open>sales_channel\<close> whose \<^verbatim>\<open>metadata\<close> names the
    market (the empty ones left out).
  \<^item> \<open>discovered w m\<close>: the pairs of a table and one of its \<^verbatim>\<open>jsonb\<close> columns in which some
    row names the market, in the order of the catalog; the processor's own table is not
    among them.
  \<^item> \<open>assignmentTablesOf w m\<close>: the channel assignment tables that exist, when the market
    has a sales channel.
  \<^item> \<open>scopeOf w m T\<close>: the \<^verbatim>\<open>WHERE\<close> clause that puts a row of \<open>T\<close> in the scope of the market:
    by \<^verbatim>\<open>sales_channel_id\<close> for an assignment table, by \<^verbatim>\<open>gp_market_id\<close> in the first
    discovered column of \<open>T\<close> for any other table; none when \<open>T\<close> is neither.
  \<^item> \<open>scopedRows w m T\<close>: the rows of \<open>T\<close> in the scope of the market; \<open>externalCount w m\<close>:
    their number over all tables; \<open>remaining w m T t\<close>: the table \<open>t\<close> without them.
  \<^item> \<open>scopedTables w m\<close>: the names of the tables that have a scope, sorted.
\<close>

definition channelIds :: "world \<Rightarrow> string \<Rightarrow> string list" where
  "channelIds w m =
     (case map_of (tables w) ''sales_channel'' of
        None \<Rightarrow> []
      | Some t \<Rightarrow>
          filter (\<lambda>s. s \<noteq> [])
            (map rowIdString (filter (matches (MarketScope ''metadata'' m)) (rows t))))"

definition hasMatch :: "world \<Rightarrow> string \<Rightarrow> whereClause \<Rightarrow> bool" where
  "hasMatch w T wh =
     (case map_of (tables w) T of None \<Rightarrow> False | Some t \<Rightarrow> list_ex (matches wh) (rows t))"

definition discovered :: "world \<Rightarrow> string \<Rightarrow> (string \<times> string) list" where
  "discovered w m =
     filter (\<lambda>(T, c). T \<noteq> STORAGE_TABLE \<and> hasMatch w T (MarketScope c m)) (jsonbColumns w)"

definition assignmentTablesOf :: "world \<Rightarrow> string \<Rightarrow> string list" where
  "assignmentTablesOf w m =
     (if channelIds w m = [] then [] else filter (hasTable w) CHANNEL_ASSIGNMENT_TABLES)"

definition scopeOf :: "world \<Rightarrow> string \<Rightarrow> string \<Rightarrow> whereClause option" where
  "scopeOf w m T =
     (if T \<in> set (assignmentTablesOf w m) then Some (ChannelScope (channelIds w m))
      else map_option (\<lambda>c. MarketScope c m) (map_of (discovered w m) T))"

definition scopedRows :: "world \<Rightarrow> string \<Rightarrow> string \<Rightarrow> row list" where
  "scopedRows w m T =
     (case map_of (tables w) T of
        None \<Rightarrow> []
      | Some t \<Rightarrow> (case scopeOf w m T of None \<Rightarrow> [] | Some wh \<Rightarrow> filter (matches wh) (rows t)))"

definition externalCount :: "world \<Rightarrow> string \<Rightarrow> nat" where
  "externalCount w m =
     sum_list (map (\<lambda>T. length (scopedRows w m T)) (remdups (map fst (tables w))))"

definition remaining :: "world \<Rightarrow> string \<Rightarrow> string \<Rightarrow> table \<Rightarrow> table" where
  "remaining w m T t =
     (case scopeOf w m T of
        None \<Rightarrow> t
      | Some wh \<Rightarrow> t\<lparr>rows := filter (\<lambda>r. \<not> matches wh r) (rows t)\<rparr>)"

definition scopedTables :: "world \<Rightarrow> string \<Rightarrow> string list" where
  "scopedTables w m = sort (remdups (map fst (discovered w m) @ assignmentTablesOf w m))"





subsection \<open>Statements that reach the rows of one table\<close>

text \<open>
  \<open>touches T t e\<close>: the event is a statement that returns, counts or deletes at least one
  row of the table \<open>T\<close>, whose content is \<open>t\<close>: a \<^verbatim>\<open>SELECT count(*)\<close>, \<^verbatim>\<open>SELECT *\<close> or \<^verbatim>\<open>DELETE\<close> on
  \<open>T\<close> whose \<^verbatim>\<open>WHERE\<close> clause some row of \<open>t\<close> satisfies, or the lookup of the sales channel
  ids when \<open>T\<close> is \<^verbatim>\<open>sales_channel\<close> and a row satisfies its clause. Every statement on the
  processor's own table (select, delete, upsert) touches that table. The statements on
  the catalog (\<^verbatim>\<open>information_schema\<close>) reach no row of a table.
  \<open>untouched T t w w'\<close>: from \<open>w\<close> to \<open>w'\<close> no new event touches \<open>T\<close>, and \<open>T\<close> still is \<open>t\<close>.
\<close>

fun touches :: "string \<Rightarrow> table \<Rightarrow> event \<Rightarrow> bool" where
  "touches T t (Query (SelectCount n wh)) = (n = T \<and> list_ex (matches wh) (rows t))"
| "touches T t (Query (SelectFrom n wh)) = (n = T \<and> list_ex (matches wh) (rows t))"
| "touches T t (Query (DeleteFrom n wh)) = (n = T \<and> list_ex (matches wh) (rows t))"
| "touches T t (Query (SelectSalesChannelIds m)) =
     (T = ''sales_channel'' \<and> list_ex (matches (MarketScope ''metadata'' m)) (rows t))"
| "touches T t (Query (SelectStored iid mid)) = (T = STORAGE_TABLE)"
| "touches T t (Query (DeleteStored iid mid)) = (T = STORAGE_TABLE)"
| "touches T t (Query (Upsert iid mid sec k v)) = (T = STORAGE_TABLE)"
| "touches T t e = False"

definition untouched :: "string \<Rightarrow> table \<Rightarrow> world \<Rightarrow> world \<Rightarrow> bool" where
  "untouched T t w w' \<longleftrightarrow>
     map_of (tables w') T = Some t
     \<and> extends w w' \<and> list_all (\<lambda>e. \<not> touches T t e) (newEvents w w')"

text \<open>
  Notions used in the proofs only. The step of the deletion loop in terms of its clause:
  the clause \<open>deleteStep\<close> applies to a table (\<open>clauseOf\<close>), the table without the rows of a
  clause (\<open>strip\<close>), the number of rows of a clause (\<open>matching\<close>); \<open>entryOf\<close> makes the
  record that discovery pushes; \<open>leaves T t\<close> is \<open>untouched T t\<close> for the runs that start
  from a world in which \<open>T\<close> is \<open>t\<close>.
\<close>

definition entryOf :: "string \<times> string \<Rightarrow> ScopedMetadataTable" where
  "entryOf nc = \<lparr>tableName = fst nc, columnName = snd nc\<rparr>"

definition leaves :: "string \<Rightarrow> table \<Rightarrow> world \<Rightarrow> world \<Rightarrow> bool" where
  "leaves T t w w' \<longleftrightarrow>
     extends w w'
     \<and> (map_of (tables w) T = Some t
          \<longrightarrow> map_of (tables w') T = Some t
              \<and> list_all (\<lambda>e. \<not> touches T t e) (newEvents w w'))"

definition clauseOf ::
  "ScopedMetadataTable list \<Rightarrow> string list \<Rightarrow> string list \<Rightarrow> string \<Rightarrow> string
     \<Rightarrow> whereClause option" where
  "clauseOf ms ids as m n =
     (if n \<in> set as then (if ids = [] then None else Some (ChannelScope ids))
      else map_option (\<lambda>e. MarketScope (columnName e) m) (find (\<lambda>e. tableName e = n) ms))"

definition strip :: "whereClause option \<Rightarrow> table \<Rightarrow> table" where
  "strip c t = (case c of None \<Rightarrow> t | Some wh \<Rightarrow> t\<lparr>rows := filter (\<lambda>r. \<not> matches wh r) (rows t)\<rparr>)"

definition matching :: "whereClause option \<Rightarrow> table option \<Rightarrow> nat" where
  "matching c t =
     (case (c, t) of (Some wh, Some tb) \<Rightarrow> length (filter (matches wh) (rows tb)) | _ \<Rightarrow> 0)"

text \<open>
  A database with sales channels. The channel \<^verbatim>\<open>sc_1\<close> belongs to the market \<^verbatim>\<open>bonbeauty\<close>
  and \<^verbatim>\<open>sc_2\<close> to \<^verbatim>\<open>mercur\<close>; \<^verbatim>\<open>product_sales_channel\<close> assigns a product to each, its
  \<^verbatim>\<open>metadata\<close> naming no market; \<^verbatim>\<open>publishable_api_key_sales_channel\<close> assigns a key to
  \<^verbatim>\<open>sc_2\<close> only; \<^verbatim>\<open>region\<close> has two JSON columns and one row, which names \<^verbatim>\<open>bonbeauty\<close> in
  \<^verbatim>\<open>metadata\<close> and nothing in \<^verbatim>\<open>settings\<close>; \<^verbatim>\<open>store\<close> holds a row of \<^verbatim>\<open>mercur\<close>; the
  processor's table holds two rows of \<^verbatim>\<open>bonbeauty\<close> and one of \<^verbatim>\<open>mercur\<close>.
\<close>

definition channelTable :: table where
  "channelTable =
     \<lparr>columns = [(''id'', ''text''), (''metadata'', ''jsonb'')],
      rows = [[(''id'', CText ''sc_1''),
               (''metadata'', CJsonb (JObj [(''gp_market_id'', JStr ''bonbeauty'')]))],
              [(''id'', CText ''sc_2''),
               (''metadata'', CJsonb (JObj [(''gp_market_id'', JStr ''mercur'')]))]]\<rparr>"

definition assignmentTable :: table where
  "assignmentTable =
     \<lparr>columns = [(''id'', ''text''), (''sales_channel_id'', ''text''), (''metadata'', ''jsonb'')],
      rows = [[(''id'', CText ''psc_1''), (''sales_channel_id'', CText ''sc_1''),
               (''metadata'', CJsonb (JObj []))],
              [(''id'', CText ''psc_2''), (''sales_channel_id'', CText ''sc_2''),
               (''metadata'', CJsonb (JObj []))]]\<rparr>"

definition keyTable :: table where
  "keyTable =
     \<lparr>columns = [(''id'', ''text''), (''sales_channel_id'', ''text''), (''metadata'', ''jsonb'')],
      rows = [[(''id'', CText ''pksc_2''), (''sales_channel_id'', CText ''sc_2''),
               (''metadata'', CJsonb (JObj []))]]\<rparr>"

definition storeTable :: table where
  "storeTable =
     \<lparr>columns = [(''id'', ''text''), (''metadata'', ''jsonb'')],
      rows = [[(''id'', CText ''store_1''),
               (''metadata'', CJsonb (JObj [(''gp_market_id'', JStr ''mercur'')]))]]\<rparr>"

definition regionTable :: table where
  "regionTable =
     \<lparr>columns = [(''id'', ''text''), (''metadata'', ''jsonb''), (''settings'', ''jsonb'')],
      rows = [[(''id'', CText ''reg_1''),
               (''metadata'', CJsonb (JObj [(''gp_market_id'', JStr ''bonbeauty'')])),
               (''settings'', CJsonb (JObj []))]]\<rparr>"

definition channelWorld :: world where
  "channelWorld =
     \<lparr>storage = Some
        [(''gp-dev'', ''bonbeauty'',
          \<lparr>row_section = Market, record_key = ''market'', data = JObj [(''market_id'', JStr ''bonbeauty'')]\<rparr>),
         (''gp-dev'', ''mercur'',
          \<lparr>row_section = Market, record_key = ''market'', data = JObj [(''market_id'', JStr ''mercur'')]\<rparr>),
         (''gp-dev'', ''bonbeauty'',
          \<lparr>row_section = VendorProducts, record_key = ''v1'', data = vendorDoc\<rparr>)],
      tables = [(''sales_channel'', channelTable), (''product_sales_channel'', assignmentTable),
                (''publishable_api_key_sales_channel'', keyTable),
                (''region'', regionTable), (''store'', storeTable)],
      files = [], trace = []\<rparr>"

definition deleteArgs :: CliArgs where
  "deleteArgs = devArgs\<lparr>operation := Delete, force := True\<rparr>"

definition overwriteArgs :: CliArgs where
  "overwriteArgs = devArgs\<lparr>operation := Overwrite, confirm := True\<rparr>"

definition dryArgs :: "Operation \<Rightarrow> CliArgs" where
  "dryArgs op = devArgs\<lparr>operation := op, confirm := True, force := True, dryRun := True\<rparr>"

text \<open>
  An input for a fill of the delete scenario's database: its market document brings a
  name that the stored one lacks, its products document and its vendor \<^verbatim>\<open>v1\<close> are the
  stored ones, and its vendor \<^verbatim>\<open>v2\<close> is new.
\<close>

definition fillInput :: InputConfig where
  "fillInput =
     \<lparr>market = Some (JObj [(''market_id'', JStr ''bonbeauty''), (''name'', JStr ''Bon'')]),
      products = Some (JObj [(''products'', JArr [])]),
      vendors = [(''v1'', vendorDoc), (''v2'', vendorDoc)], warnings = []\<rparr>"
section \<open>Properties of the merge engine\<close>

lemma mergeItems_flag: "snd (mergeItems key idx nxt True inc)"
  by (induction inc arbitrary: nxt) (auto split: option.splits simp: Let_def)

lemma mergeEntries_flag: "snd (mergeEntries onext True es)"
  by (induction es arbitrary: onext) (auto split: option.splits simp: Let_def)

lemma unchanged_all:
  "(\<not> snd (mergeFill c i) \<longrightarrow> fst (mergeFill c i) = c)"
  "(\<not> snd (mergeItems key idx nxt changed inc) \<longrightarrow> fst (mergeItems key idx nxt changed inc) = nxt)"
  "(\<not> snd (mergeEntries onext ochanged es) \<longrightarrow> fst (mergeEntries onext ochanged es) = onext)"
proof (induction c i and key idx nxt changed inc and onext ochanged es
       rule: mergeFill_mergeItems_mergeEntries.induct)
  case (3 current incoming)
  then show ?case by (auto split: option.splits simp: case_prod_beta)
next
  case (4 current incoming)
  then show ?case by (auto simp: case_prod_beta)
next
  case (7 key idx nxt changed incomingItem rest)
  then show ?case by (auto split: option.splits simp: Let_def mergeItems_flag)
next
  case (9 nxt changed key incomingValue rest)
  then show ?case by (auto split: option.splits simp: Let_def mergeEntries_flag)
qed auto

lemma map_of_objSet:
  "map_of kvs key \<noteq> None \<Longrightarrow> map_of (objSet kvs key v) k = (if k = key then Some v else map_of kvs k)"
  by (induction kvs) auto

lemma child_arrSet:
  "child (JArr xs) (Idx j) = Some c \<Longrightarrow> j \<noteq> i \<Longrightarrow> child (JArr (arrSet xs i v)) (Idx j) = Some c"
  by (auto simp: arrSet_def nth_append split: if_splits)

lemma keep_all:
  "(\<forall>p v. atPath c p = Some v \<longrightarrow> nonEmptyScalar v \<longrightarrow> atPath (fst (mergeFill c i)) p = Some v)"
  "(\<forall>p v. atPath (JArr nxt) p = Some v \<longrightarrow> nonEmptyScalar v
        \<longrightarrow> atPath (JArr (fst (mergeItems key idx nxt changed inc))) p = Some v)"
  "(\<forall>p v. atPath (JObj onext) p = Some v \<longrightarrow> nonEmptyScalar v
        \<longrightarrow> atPath (JObj (fst (mergeEntries onext ochanged es))) p = Some v)"
proof (induction c i and key idx nxt changed inc and onext ochanged es
       rule: mergeFill_mergeItems_mergeEntries.induct)
  case (1 incoming)
  show ?case
  proof (intro allI impI)
    fix p v assume "atPath JNull p = Some v" "nonEmptyScalar v"
    then show "atPath (fst (mergeFill JNull incoming)) p = Some v"
      by (cases p) auto
  qed
next
  case (2 s incoming)
  show ?case
  proof (intro allI impI)
    fix p v assume "atPath (JStr s) p = Some v" "nonEmptyScalar v"
    then show "atPath (fst (mergeFill (JStr s) incoming)) p = Some v"
      by (cases p) auto
  qed
next
  case (3 current incoming)
  show ?case
  proof (intro allI impI)
    fix p v assume a: "atPath (JArr current) p = Some v" "nonEmptyScalar v"
    then have ne: "current \<noteq> []" by (cases p; cases "hd p") (auto split: if_splits)
    show "atPath (fst (mergeFill (JArr current) (JArr incoming))) p = Some v"
    proof (cases "orElse (detectIdKey current) (detectIdKey incoming)")
      case None
      then show ?thesis using a ne by simp
    next
      case (Some key)
      then show ?thesis using a ne 3 by (simp add: case_prod_beta)
    qed
  qed
next
  case (4 current incoming)
  then show ?case by (simp add: case_prod_beta)
next
  case (7 key idx nxt changed incomingItem rest)
  show ?case
  proof (intro allI impI)
    fix p v assume a: "atPath (JArr nxt) p = Some v" "nonEmptyScalar v"
    show "atPath (JArr (fst (mergeItems key idx nxt changed (incomingItem # rest)))) p = Some v"
    proof (cases "stringProp incomingItem key")
      case None
      then show ?thesis using a 7(1) by simp
    next
      case (Some ident)
      note sp = this
      show ?thesis
      proof (cases "idx ident")
        case None
        have "atPath (JArr (nxt @ [clone incomingItem])) p = Some v"
          using a by (cases p; cases "hd p") (auto simp: nth_append split: if_splits)
        then show ?thesis using sp None 7(2) a by simp
      next
        case (Some ci)
        note ix = this
        define merged where "merged = (case arrGet nxt ci of None \<Rightarrow> (clone incomingItem, True)
                                        | Some cur \<Rightarrow> mergeFill cur incomingItem)"
        show ?thesis
        proof (cases "snd merged")
          case False
          then show ?thesis using sp ix 7(5)[OF sp ix merged_def] a
            by (simp add: merged_def Let_def)
        next
          case True
          have "atPath (JArr (arrSet nxt ci (fst merged))) p = Some v"
          proof (cases p)
            case Nil
            then show ?thesis using a by auto
          next
            case (Cons s q)
            show ?thesis
            proof (cases s)
              case (Key k)
              then show ?thesis using a Cons by simp
            next
              case (Idx j)
              then have j: "j < length nxt" and aq: "atPath (nxt ! j) q = Some v"
                using a Cons by (auto split: if_splits)
              show ?thesis
              proof (cases "j = ci")
                case False
                then show ?thesis using j aq Cons Idx
                  by (simp add: arrSet_def nth_append)
              next
                case True
                then have g: "arrGet nxt ci = Some (nxt ! j)" using j by simp
                have "atPath (fst (mergeFill (nxt ! j) incomingItem)) q = Some v"
                  using 7(3)[OF sp ix g] aq a(2) by blast
                then show ?thesis using True j Cons Idx g
                  by (simp add: arrSet_def merged_def)
              qed
            qed
          qed
          then show ?thesis using sp ix True 7(4)[OF sp ix merged_def True] a(2)
            by (simp add: merged_def Let_def)
        qed
      qed
    qed
  qed
next
  case (9 nxt changed key incomingValue rest)
  show ?case
  proof (intro allI impI)
    fix p v assume a: "atPath (JObj nxt) p = Some v" "nonEmptyScalar v"
    show "atPath (JObj (fst (mergeEntries nxt changed ((key, incomingValue) # rest)))) p = Some v"
    proof (cases "map_of nxt key")
      case None
      have "atPath (JObj (nxt @ [(key, clone incomingValue)])) p = Some v"
        using a None by (cases p; cases "hd p") (auto simp: map_add_def split: option.splits)
      then show ?thesis using None 9(1) a by simp
    next
      case (Some cur)
      note mk = this
      define merged where "merged = mergeFill cur incomingValue"
      show ?thesis
      proof (cases "snd merged")
        case False
        then show ?thesis using mk 9(4)[OF mk merged_def] a by (simp add: merged_def Let_def)
      next
        case True
        have "atPath (JObj (objSet nxt key (fst merged))) p = Some v"
        proof (cases p)
          case Nil
          then show ?thesis using a by auto
        next
          case (Cons s q)
          show ?thesis
          proof (cases s)
            case (Idx j)
            then show ?thesis using a Cons by simp
          next
            case (Key k)
            show ?thesis
            proof (cases "k = key")
              case False
              then show ?thesis using a Cons Key mk by (simp add: map_of_objSet)
            next
              case True
              then have "atPath cur q = Some v" using a Cons Key mk by simp
              then have "atPath (fst (mergeFill cur incomingValue)) q = Some v"
                using 9(2)[OF mk] a(2) by blast
              then show ?thesis using True Cons Key mk by (simp add: map_of_objSet merged_def)
            qed
          qed
        qed
        then show ?thesis using mk True 9(3)[OF mk merged_def True] a(2)
          by (simp add: merged_def Let_def)
      qed
    qed
  qed
qed auto

text \<open>
  C1 (fill monotonicity). For every stored document \<open>D\<close> and every incoming document
  \<open>I\<close>, every path of \<open>D\<close> that holds a non-empty scalar holds the same scalar in the
  value returned by \<open>mergeFill D I\<close>: nothing is overwritten and nothing is removed.
\<close>

theorem mergeFill_monotone:
  assumes "atPath D p = Some v" and "nonEmptyScalar v"
  shows "atPath (fst (mergeFill D I)) p = Some v"
  using assms keep_all(1) by blast

theorem mergeFill_monotone_witness:
  "atPath (JObj [(''products'', JArr [JObj [(''product_id'', JStr ''p1''), (''name'', JStr ''A'')]])])
          [Key ''products'', Idx 0, Key ''name''] = Some (JStr ''A'')
   \<and> nonEmptyScalar (JStr ''A'')
   \<and> atPath (fst (mergeFill
          (JObj [(''products'', JArr [JObj [(''product_id'', JStr ''p1''), (''name'', JStr ''A'')]])])
          (JObj [(''products'', JArr [JObj [(''product_id'', JStr ''p1''), (''name'', JStr ''B''),
                                            (''description'', JStr ''new'')],
                                      JObj [(''product_id'', JStr ''p2''), (''name'', JStr ''B'')]])])))
          [Key ''products'', Idx 0, Key ''name''] = Some (JStr ''A'')"
proof -
  have h1: "atPath (JObj [(''products'', JArr [JObj [(''product_id'', JStr ''p1''), (''name'', JStr ''A'')]])])
          [Key ''products'', Idx 0, Key ''name''] = Some (JStr ''A'')"
    by simp
  have h2: "nonEmptyScalar (JStr ''A'')" by simp
  show ?thesis using h1 h2 mergeFill_monotone [OF h1 h2] by blast
qed


subsection \<open>Identity-key detection\<close>

lemma item_ok_iff:
  "(\<not> isObject item \<or> \<not> truthy (getProp item key) \<or> isString (getProp item key))
   \<longleftrightarrow> \<not> (exposesAsNonString key item \<and> truthy (getProp item key))"
  unfolding exposesAsNonString_def
  by (cases "getProp item key") auto

lemma qualifies_iff_amended: "qualifies key arr = qualifiesAmended key arr"
  unfolding qualifies_def qualifiesAmended_def list_all_iff list_ex_iff exposesAsString_def
  using item_ok_iff [of _ key] by blast

lemma detectIdKey_None_iff:
  "detectIdKey arr = None \<longleftrightarrow> (\<forall>key \<in> set idKeys. \<not> qualifiesAmended key arr)"
  by (auto simp: detectIdKey_def find_None_iff qualifies_iff_amended)

text \<open>
  C7 (identity-key detection), as the claim states the test: it fails. In the array
  \<^verbatim>\<open>[{id: "a"}, {id: 0}]\<close> the second element exposes \<^verbatim>\<open>id\<close> as a number, so the key does
  not qualify by the claim's wording; \<open>detectIdKey\<close> returns it, because \<^verbatim>\<open>!item[key]\<close>
  lets every falsy value pass.
\<close>

theorem detectIdKey_falsy_counterexample:
  "detectIdKey [JObj [(''id'', JStr ''a'')], JObj [(''id'', JNum 0)]] = Some ''id''
   \<and> \<not> qualifiesSpec ''id'' [JObj [(''id'', JStr ''a'')], JObj [(''id'', JNum 0)]]"
  by (simp add: detectIdKey_def idKeys_def qualifies_def qualifiesSpec_def
      exposesAsString_def exposesAsNonString_def)

text \<open>
  C7, amended. With both arguments arrays and \<open>current\<close> non-empty, the key is looked
  for in \<open>current\<close> first and then in \<open>incoming\<close>, over the keys
  \<^verbatim>\<open>id, product_id, category_id, vendor_id, service_id\<close> in that order; a key qualifies for
  an array exactly when at least one element exposes it as a string and no element
  holds a truthy non-string value under it; and when no key qualifies for either array,
  \<open>current\<close> is returned unchanged with \<open>changed = False\<close>.
\<close>

theorem identity_key_detection:
  assumes "current \<noteq> []"
  shows "detectIdKey arr
           = find (\<lambda>key. qualifiesAmended key arr)
               [''id'', ''product_id'', ''category_id'', ''vendor_id'', ''service_id'']
       \<and> mergeFill (JArr current) (JArr incoming)
           = (case orElse (detectIdKey current) (detectIdKey incoming) of
                None \<Rightarrow> (JArr current, False)
              | Some key \<Rightarrow>
                  (case mergeItems key (indexById key current) current False incoming of
                     (nxt, changed) \<Rightarrow> (JArr nxt, changed)))
       \<and> ((\<forall>key \<in> set idKeys. \<not> qualifiesAmended key current \<and> \<not> qualifiesAmended key incoming)
            \<longrightarrow> mergeFill (JArr current) (JArr incoming) = (JArr current, False))"
proof (intro conjI impI)
  show "detectIdKey arr
           = find (\<lambda>key. qualifiesAmended key arr)
               [''id'', ''product_id'', ''category_id'', ''vendor_id'', ''service_id'']"
    unfolding detectIdKey_def idKeys_def by (simp only: qualifies_iff_amended)
  show m: "mergeFill (JArr current) (JArr incoming)
           = (case orElse (detectIdKey current) (detectIdKey incoming) of
                None \<Rightarrow> (JArr current, False)
              | Some key \<Rightarrow>
                  (case mergeItems key (indexById key current) current False incoming of
                     (nxt, changed) \<Rightarrow> (JArr nxt, changed)))"
    using assms by simp
  assume "\<forall>key \<in> set idKeys. \<not> qualifiesAmended key current \<and> \<not> qualifiesAmended key incoming"
  then have "detectIdKey current = None" and "detectIdKey incoming = None"
    by (simp_all add: detectIdKey_None_iff)
  then show "mergeFill (JArr current) (JArr incoming) = (JArr current, False)"
    using m by simp
qed

theorem identity_key_detection_witness:
  "[JObj [(''name'', JStr ''A'')]] \<noteq> []
   \<and> \<not> qualifiesAmended ''id'' [JObj [(''name'', JStr ''A'')]]
   \<and> detectIdKey [JObj [(''id'', JStr ''a'')], JObj [(''id'', JNull), (''product_id'', JNum 7)]] = Some ''id''
   \<and> mergeFill (JArr [JObj [(''name'', JStr ''A'')]]) (JArr [JObj [(''name'', JStr ''B'')]])
        = (JArr [JObj [(''name'', JStr ''A'')]], False)"
proof -
  have ne: "[JObj [(''name'', JStr ''A'')]] \<noteq> []" by simp
  have q: "\<forall>key \<in> set idKeys. \<not> qualifiesAmended key [JObj [(''name'', JStr ''A'')]]
              \<and> \<not> qualifiesAmended key [JObj [(''name'', JStr ''B'')]]"
    by (simp add: idKeys_def qualifiesAmended_def exposesAsString_def)
  have d: "find (\<lambda>key. qualifiesAmended key
                 [JObj [(''id'', JStr ''a'')], JObj [(''id'', JNull), (''product_id'', JNum 7)]])
              [''id'', ''product_id'', ''category_id'', ''vendor_id'', ''service_id''] = Some ''id''"
    by (simp add: qualifiesAmended_def exposesAsString_def exposesAsNonString_def)
  note th = identity_key_detection [OF ne,
      of "[JObj [(''id'', JStr ''a'')], JObj [(''id'', JNull), (''product_id'', JNum 7)]]"
         "[JObj [(''name'', JStr ''B'')]]"]
  from th q have "mergeFill (JArr [JObj [(''name'', JStr ''A'')]]) (JArr [JObj [(''name'', JStr ''B'')]])
        = (JArr [JObj [(''name'', JStr ''A'')]], False)" by blast
  moreover from th d have
    "detectIdKey [JObj [(''id'', JStr ''a'')], JObj [(''id'', JNull), (''product_id'', JNum 7)]] = Some ''id''"
    by simp
  moreover have "\<not> qualifiesAmended ''id'' [JObj [(''name'', JStr ''A'')]]"
    using q by (simp add: idKeys_def)
  ultimately show ?thesis using ne by blast
qed

subsection \<open>Idempotence\<close>

text \<open>
  C2 (fill idempotence): the code breaks it. \<^verbatim>\<open>mergeFill\<close> reconciles the elements of two
  arrays by their identifier: an incoming element whose identifier is in \<^verbatim>\<open>indexById\<close> is
  merged into the element that carries it. The index is filled once, from \<^verbatim>\<open>current\<close>, and
  the branch that appends a new element (\<^verbatim>\<open>next.push(clone(incomingItem))\<close>) does not enter
  it. Two incoming elements with the same new identifier \<^verbatim>\<open>p2\<close> are therefore both
  appended by the first fill; the second fill starts from an index that knows \<^verbatim>\<open>p2\<close> (at
  its last position) and merges the first incoming element into the last appended one,
  which gains the property \<^verbatim>\<open>name\<close>. The value of the second fill differs from the value of
  the first.
\<close>

theorem mergeFill_idempotence_counterexample:
  "fst (mergeFill
        (JObj [(''products'', JArr [JObj [(''product_id'', JStr ''p1'')]])])
        (JObj [(''products'', JArr [JObj [(''product_id'', JStr ''p2''), (''name'', JStr ''A'')],
                                    JObj [(''product_id'', JStr ''p2''), (''description'', JStr ''d'')]])]))
   = JObj [(''products'', JArr [JObj [(''product_id'', JStr ''p1'')],
                                JObj [(''product_id'', JStr ''p2''), (''name'', JStr ''A'')],
                                JObj [(''product_id'', JStr ''p2''), (''description'', JStr ''d'')]])]
   \<and> fst (mergeFill
        (JObj [(''products'', JArr [JObj [(''product_id'', JStr ''p1'')],
                                    JObj [(''product_id'', JStr ''p2''), (''name'', JStr ''A'')],
                                    JObj [(''product_id'', JStr ''p2''), (''description'', JStr ''d'')]])])
        (JObj [(''products'', JArr [JObj [(''product_id'', JStr ''p2''), (''name'', JStr ''A'')],
                                    JObj [(''product_id'', JStr ''p2''), (''description'', JStr ''d'')]])]))
   = JObj [(''products'', JArr [JObj [(''product_id'', JStr ''p1'')],
                                JObj [(''product_id'', JStr ''p2''), (''name'', JStr ''A'')],
                                JObj [(''product_id'', JStr ''p2''), (''description'', JStr ''d''),
                                      (''name'', JStr ''A'')]])]"
  by (simp add: detectIdKey_def idKeys_def qualifies_def indexById_def clone_def arrSet_def)

section \<open>The deletion order\<close>

lemma foldl_setAdd: "foldl setAdd acc xs = acc @ firstOcc acc xs"
  by (induction xs arbitrary: acc) auto

lemma set_firstOcc: "set (firstOcc acc xs) = set xs - set acc"
  by (induction xs arbitrary: acc) auto

lemma distinct_firstOcc: "distinct (firstOcc acc xs)"
  by (induction xs arbitrary: acc) (auto simp: set_firstOcc)

lemma sorted_firstOcc: "sorted xs \<Longrightarrow> sorted (firstOcc acc xs)"
  by (induction xs arbitrary: acc) (auto simp: set_firstOcc)

lemma order_split:
  assumes "''sales_channel'' \<notin> set a"
  shows "buildScopedDeleteOrder m a
         = firstOcc [] a @ filter (\<lambda>t. t \<noteq> ''sales_channel'') (firstOcc (firstOcc [] a) m)
           @ (if ''sales_channel'' \<in> set m then [''sales_channel''] else [])"
proof -
  have "filter (\<lambda>t. t \<noteq> ''sales_channel'') (firstOcc [] a) = firstOcc [] a"
    using assms by (auto simp: filter_id_conv set_firstOcc)
  then show ?thesis
    using assms by (auto simp: buildScopedDeleteOrder_def foldl_setAdd Let_def set_firstOcc)
qed


lemma channel_tables_no_sales_channel:
  "set a \<subseteq> set CHANNEL_ASSIGNMENT_TABLES \<Longrightarrow> ''sales_channel'' \<notin> set a"
  by (auto simp: CHANNEL_ASSIGNMENT_TABLES_def)

lemma nth_append_split:
  assumes "set xs \<subseteq> A" and "set ys \<inter> A = {}"
    and "i < length (xs @ ys)" and "j < length (xs @ ys)"
    and "(xs @ ys) ! i \<in> A" and "(xs @ ys) ! j \<notin> A"
  shows "i < j"
proof -
  have "i < length xs"
  proof (rule ccontr)
    assume "\<not> i < length xs"
    then have "(xs @ ys) ! i \<in> set ys" using assms(3) by (simp add: nth_append)
    then show False using assms(2,5) by auto
  qed
  moreover have "\<not> j < length xs"
  proof
    assume "j < length xs"
    then have "(xs @ ys) ! j \<in> set xs" by (simp add: nth_append)
    then show False using assms(1,6) by auto
  qed
  ultimately show ?thesis by simp
qed

text \<open>
  C8 (scoped deletion order). For every list of metadata-scoped tables and every list of
  assignment tables (tables of \<open>CHANNEL_ASSIGNMENT_TABLES\<close>, as \<^verbatim>\<open>deleteScopedDbConfig\<close>
  passes them), the order built by \<open>buildScopedDeleteOrder\<close> holds every table exactly
  once, has every assignment table before every other table, ends with
  \<^verbatim>\<open>sales_channel\<close> whenever that table occurs, and keeps the metadata-scoped tables in
  lexicographic order when they are supplied so.
\<close>

theorem buildScopedDeleteOrder_order:
  assumes "set assignmentTables \<subseteq> set CHANNEL_ASSIGNMENT_TABLES"
  shows "distinct (buildScopedDeleteOrder metadataTables assignmentTables)
       \<and> set (buildScopedDeleteOrder metadataTables assignmentTables)
           = set assignmentTables \<union> set metadataTables
       \<and> (\<forall>i j. i < length (buildScopedDeleteOrder metadataTables assignmentTables)
              \<and> j < length (buildScopedDeleteOrder metadataTables assignmentTables)
              \<and> buildScopedDeleteOrder metadataTables assignmentTables ! i \<in> set assignmentTables
              \<and> buildScopedDeleteOrder metadataTables assignmentTables ! j \<notin> set assignmentTables
              \<longrightarrow> i < j)
       \<and> (''sales_channel'' \<in> set (buildScopedDeleteOrder metadataTables assignmentTables)
            \<longrightarrow> last (buildScopedDeleteOrder metadataTables assignmentTables) = ''sales_channel'')
       \<and> (sorted metadataTables
            \<longrightarrow> sorted (filter (\<lambda>t. t \<notin> set assignmentTables \<and> t \<noteq> ''sales_channel'')
                          (buildScopedDeleteOrder metadataTables assignmentTables)))"
proof -
  let ?a = "assignmentTables" and ?m = "metadataTables"
  let ?A = "firstOcc [] ?a"
  let ?N = "filter (\<lambda>t. t \<noteq> ''sales_channel'') (firstOcc ?A ?m)"
  let ?S = "if ''sales_channel'' \<in> set ?m then [''sales_channel''] else []"
  have nsc: "''sales_channel'' \<notin> set ?a"
    using assms by (rule channel_tables_no_sales_channel)
  have R: "buildScopedDeleteOrder ?m ?a = ?A @ ?N @ ?S"
    using nsc by (rule order_split)
  have setA: "set ?A = set ?a" by (simp add: set_firstOcc)
  have setN: "set ?N = set ?m - set ?a - {''sales_channel''}" by (auto simp: set_firstOcc)
  have d: "distinct (?A @ ?N @ ?S)"
    using nsc by (auto simp: distinct_firstOcc set_firstOcc)
  have s: "set (?A @ ?N @ ?S) = set ?a \<union> set ?m"
    by (auto simp: set_firstOcc)
  have o: "\<forall>i j. i < length (?A @ ?N @ ?S) \<and> j < length (?A @ ?N @ ?S)
              \<and> (?A @ ?N @ ?S) ! i \<in> set ?a \<and> (?A @ ?N @ ?S) ! j \<notin> set ?a \<longrightarrow> i < j"
  proof (intro allI impI)
    fix i j
    assume a: "i < length (?A @ ?N @ ?S) \<and> j < length (?A @ ?N @ ?S)
              \<and> (?A @ ?N @ ?S) ! i \<in> set ?a \<and> (?A @ ?N @ ?S) ! j \<notin> set ?a"
    have "set ?A \<subseteq> set ?a" using setA by simp
    moreover have "set (?N @ ?S) \<inter> set ?a = {}" using nsc setN by auto
    ultimately show "i < j" using a nth_append_split[of ?A "set ?a" "?N @ ?S" i j] by blast
  qed
  have l: "''sales_channel'' \<in> set (?A @ ?N @ ?S) \<longrightarrow> last (?A @ ?N @ ?S) = ''sales_channel''"
    using nsc by (auto simp: set_firstOcc)
  have f: "filter (\<lambda>t. t \<notin> set ?a \<and> t \<noteq> ''sales_channel'') (?A @ ?N @ ?S) = ?N"
  proof -
    have "filter (\<lambda>t. t \<notin> set ?a \<and> t \<noteq> ''sales_channel'') ?A = []"
      by (auto simp: filter_empty_conv set_firstOcc)
    moreover have "filter (\<lambda>t. t \<notin> set ?a \<and> t \<noteq> ''sales_channel'') ?N = ?N"
      by (rule filter_True) (auto simp: set_firstOcc)
    moreover have "filter (\<lambda>t. t \<notin> set ?a \<and> t \<noteq> ''sales_channel'') ?S = []"
      by simp
    ultimately show ?thesis by (simp del: filter.simps filter_filter)
  qed
  have so: "sorted ?m \<longrightarrow> sorted (filter (\<lambda>t. t \<notin> set ?a \<and> t \<noteq> ''sales_channel'') (?A @ ?N @ ?S))"
    unfolding f by (simp add: sorted_wrt_filter sorted_firstOcc)
  show ?thesis unfolding R using d s o l so by blast
qed

theorem buildScopedDeleteOrder_order_witness:
  "set [''product_sales_channel''] \<subseteq> set CHANNEL_ASSIGNMENT_TABLES
   \<and> sorted [''product'', ''sales_channel'', ''store'']
   \<and> buildScopedDeleteOrder [''product'', ''sales_channel'', ''store''] [''product_sales_channel'']
       = [''product_sales_channel'', ''product'', ''store'', ''sales_channel'']
   \<and> distinct (buildScopedDeleteOrder [''product'', ''sales_channel'', ''store''] [''product_sales_channel''])
   \<and> last (buildScopedDeleteOrder [''product'', ''sales_channel'', ''store''] [''product_sales_channel''])
       = ''sales_channel''
   \<and> sorted (filter (\<lambda>t. t \<notin> set [''product_sales_channel''] \<and> t \<noteq> ''sales_channel'')
        (buildScopedDeleteOrder [''product'', ''sales_channel'', ''store''] [''product_sales_channel'']))"
proof -
  have h: "set [''product_sales_channel''] \<subseteq> set CHANNEL_ASSIGNMENT_TABLES"
    by (simp add: CHANNEL_ASSIGNMENT_TABLES_def)
  have s: "sorted [''product'', ''sales_channel'', ''store'']" by simp
  have v: "buildScopedDeleteOrder [''product'', ''sales_channel'', ''store''] [''product_sales_channel'']
       = [''product_sales_channel'', ''product'', ''store'', ''sales_channel'']"
    by (simp add: buildScopedDeleteOrder_def)
  have m: "''sales_channel'' \<in> set (buildScopedDeleteOrder [''product'', ''sales_channel'', ''store'']
             [''product_sales_channel''])"
    unfolding v by simp
  note th = buildScopedDeleteOrder_order [OF h, of "[''product'', ''sales_channel'', ''store'']"]
  from th have "distinct (buildScopedDeleteOrder [''product'', ''sales_channel'', ''store''] [''product_sales_channel''])"
    by blast
  moreover from th m have "last (buildScopedDeleteOrder [''product'', ''sales_channel'', ''store''] [''product_sales_channel''])
       = ''sales_channel''" by blast
  moreover from th s have "sorted (filter (\<lambda>t. t \<notin> set [''product_sales_channel''] \<and> t \<noteq> ''sales_channel'')
        (buildScopedDeleteOrder [''product'', ''sales_channel'', ''store''] [''product_sales_channel'']))"
    by blast
  ultimately show ?thesis using h s v by blast
qed


section \<open>The safety gate\<close>

text \<open>
  C6 (production guard). When the operation is overwrite or delete, the instance
  identifier matches \<^verbatim>\<open>/(prod|production)$/i\<close> and \<^verbatim>\<open>GP_ALLOW_PROD_MUTATIONS\<close> is not the
  string \<^verbatim>\<open>true\<close>, \<open>runCli\<close> fails with the guard's error and leaves the world as it
  found it: no connection is opened and nothing is sent. Fill and export pass the guard
  whatever the instance identifier.
\<close>

theorem production_guard:
  "(operation args \<in> {Overwrite, Delete} \<and> isProdLike (instanceId args)
      \<and> GP_ALLOW_PROD_MUTATIONS env \<noteq> Some ''true''
      \<longrightarrow> runCli host env schemas tree args w = (Inl ProdBlocked, w))
   \<and> (operation args \<in> {Fill, Export} \<longrightarrow> ensureSafeDestructiveOperation env args = Inr ())"
  by (auto simp: runCli_def ensureSafeDestructiveOperation_def andThen_def liftE_def)

theorem production_guard_witness:
  "operation prodArgs = Delete \<and> isProdLike (instanceId prodArgs)
   \<and> GP_ALLOW_PROD_MUTATIONS noEnv \<noteq> Some ''true''
   \<and> runCli exampleHost noEnv acceptAll vendorTree prodArgs emptyWorld = (Inl ProdBlocked, emptyWorld)
   \<and> operation (prodArgs\<lparr>operation := Fill\<rparr>) = Fill
   \<and> ensureSafeDestructiveOperation noEnv (prodArgs\<lparr>operation := Fill\<rparr>) = Inr ()"
proof -
  have h1: "operation prodArgs \<in> {Overwrite, Delete}" by (simp add: prodArgs_def)
  have h2: "isProdLike (instanceId prodArgs)"
    by (simp add: prodArgs_def isProdLike_def endsWith_def toLowerAscii_def)
  have h3: "GP_ALLOW_PROD_MUTATIONS noEnv \<noteq> Some ''true''" by (simp add: noEnv_def)
  have h4: "operation (prodArgs\<lparr>operation := Fill\<rparr>) \<in> {Fill, Export}" by simp
  have "runCli exampleHost noEnv acceptAll vendorTree prodArgs emptyWorld = (Inl ProdBlocked, emptyWorld)"
    using production_guard [of prodArgs noEnv] h1 h2 h3 by blast
  moreover have "ensureSafeDestructiveOperation noEnv (prodArgs\<lparr>operation := Fill\<rparr>) = Inr ()"
    using production_guard [of "prodArgs\<lparr>operation := Fill\<rparr>" noEnv] h4 by blast
  ultimately show ?thesis using h2 h3 by (simp add: prodArgs_def)
qed

section \<open>The input loader\<close>

lemma objSet_keeps: "(k, v) \<in> set acc \<Longrightarrow> k' \<noteq> k \<Longrightarrow> (k, v) \<in> set (objSet acc k' v')"
  by (induction acc) auto

lemma objSet_has: "(k, v) \<in> set (objSet acc k v)"
  by (induction acc) auto

lemma loadVendors_warnings:
  "loadVendors args schemas entries acc warns = Inr (vs, ws) \<Longrightarrow>
   ws = warns @ map (\<lambda>e. ''Missing file: ''
                       @ pathJoin (pathJoin (vendorsDirPath args) (entryName e)) ''products.yaml'')
              (filter (\<lambda>e. isDirectory e \<and> vendorProductsYaml e = None) entries)"
proof (induction entries arbitrary: acc warns)
  case Nil
  then show ?case by simp
next
  case (Cons e entries)
  from Cons.prems show ?case
    by (auto simp: Let_def split: if_splits option.splits sum.splits dest!: Cons.IH)
qed

lemma loadVendors_keeps:
  "loadVendors args schemas entries acc warns = Inr (vs, ws) \<Longrightarrow>
   (k, v) \<in> set acc \<Longrightarrow> k \<notin> entryName ` set entries \<Longrightarrow> (k, v) \<in> set vs"
proof (induction entries arbitrary: acc warns)
  case Nil
  then show ?case by simp
next
  case (Cons e entries)
  from Cons.prems(2,3) have k: "k \<noteq> entryName e" "k \<notin> entryName ` set entries" by auto
  from Cons.prems(1) obtain acc' warns' where
    r: "loadVendors args schemas entries acc' warns' = Inr (vs, ws)"
    and a: "acc' = acc \<or> (\<exists>d. acc' = objSet acc (entryName e) d)"
    by (auto simp: Let_def assignVendor_def split: if_splits option.splits sum.splits)
  have "(k, v) \<in> set acc'" using a Cons.prems(2) k(1) by (auto simp: objSet_keeps)
  then show ?case using Cons.IH[OF r _ k(2)] by simp
qed

lemma readYamlObject_Loaded: "readYamlObject p (Loaded doc) = Inr d \<Longrightarrow> d = doc"
  by (cases doc) auto

lemma loadVendors_row:
  "loadVendors args schemas entries acc warns = Inr (vs, ws) \<Longrightarrow>
   distinct (map entryName entries) \<Longrightarrow> e \<in> set entries \<Longrightarrow> isDirectory e \<Longrightarrow>
   vendorProductsYaml e = Some (Loaded doc) \<Longrightarrow> entryName e \<noteq> ''__proto__'' \<Longrightarrow>
   (entryName e, doc) \<in> set vs"
proof (induction entries arbitrary: acc warns)
  case Nil
  then show ?case by simp
next
  case (Cons x entries)
  show ?case
  proof (cases "e = x")
    case True
    from Cons.prems(1) True Cons.prems(4,5,6) obtain d where
      d: "readYamlObject (pathJoin (pathJoin (vendorsDirPath args) (entryName x)) ''products.yaml'')
             (Loaded doc) = Inr d"
      and rest: "loadVendors args schemas entries (objSet acc (entryName x) d) warns = Inr (vs, ws)"
      by (auto simp: Let_def assignVendor_def split: sum.splits)
    have "d = doc" using d by (rule readYamlObject_Loaded)
    moreover have "entryName x \<notin> entryName ` set entries" using Cons.prems(2) by auto
    ultimately show ?thesis
      using loadVendors_keeps[OF rest objSet_has] True by simp
  next
    case False
    then have m: "e \<in> set entries" using Cons.prems(3) by simp
    have dd: "distinct (map entryName entries)" using Cons.prems(2) by simp
    from Cons.prems(1) obtain acc' warns' where
      "loadVendors args schemas entries acc' warns' = Inr (vs, ws)"
      by (auto simp: Let_def split: if_splits option.splits sum.splits)
    then show ?thesis using Cons.IH dd m Cons.prems(4,5,6) by blast
  qed
qed

lemma load_vendorTree:
  "loadInputConfig devArgs acceptAll vendorTree
     = Inr \<lparr>market = Some (JObj [(''market_id'', JStr ''bonbeauty'')]),
            products = Some (JObj [(''products'', JArr [])]),
            vendors = [(''v1'', vendorDoc)], warnings = []\<rparr>"
  by (simp add: loadInputConfig_def assertInstanceAndMarketExist_def devArgs_def vendorTree_def
      acceptAll_def loadOptional_def validateAgainstSchema_def vendorDoc_def assignVendor_def
      Let_def)

lemma map_fst_objSet:
  "map fst (objSet acc k v) = (if k \<in> set (map fst acc) then map fst acc else map fst acc @ [k])"
proof (induction acc)
  case Nil
  then show ?case by simp
next
  case (Cons kv acc)
  obtain a b where kv: "kv = (a, b)" by (cases kv)
  show ?case using Cons kv by (cases "a = k") (simp_all split: if_splits)
qed

lemma fst_objSet: "fst ` set (objSet acc k v) = insert k (fst ` set acc)"
proof -
  have "set (map fst (objSet acc k v)) = insert k (set (map fst acc))"
    unfolding map_fst_objSet by auto
  then show ?thesis by simp
qed

lemma loadVendors_proto:
  "loadVendors args schemas entries acc warns = Inr (vs, ws) \<Longrightarrow>
   ''__proto__'' \<notin> fst ` set acc \<Longrightarrow> ''__proto__'' \<notin> fst ` set vs"
proof (induction entries arbitrary: acc warns)
  case Nil
  then show ?case by simp
next
  case (Cons e entries)
  from Cons.prems(1) obtain acc' warns' where
    r: "loadVendors args schemas entries acc' warns' = Inr (vs, ws)"
    and a: "acc' = acc \<or> (\<exists>k d. k \<noteq> ''__proto__'' \<and> acc' = objSet acc k d)"
    by (auto simp: Let_def assignVendor_def split: if_splits option.splits sum.splits)
  have "''__proto__'' \<notin> fst ` set acc'"
  proof (cases "acc' = acc")
    case True
    then show ?thesis using Cons.prems(2) by simp
  next
    case False
    then obtain k d where "k \<noteq> ''__proto__''" "acc' = objSet acc k d" using a by blast
    then show ?thesis using Cons.prems(2) fst_objSet [of acc k d] by simp
  qed
  then show ?case using Cons.IH [OF r] by simp
qed


text \<open>
  C9 (vendor-id disagreement), as stated: it fails. The loader never compares the
  \<^verbatim>\<open>vendor_id\<close> field of a vendor file with the directory name. For the directory
  \<^verbatim>\<open>vendors/v1\<close> whose file says \<^verbatim>\<open>vendor_id: acme\<close>, the load succeeds with no warning at
  all, and the row's \<^verbatim>\<open>record_key\<close> is \<^verbatim>\<open>v1\<close>, not \<^verbatim>\<open>acme\<close>.
\<close>

theorem vendor_id_counterexample:
  "getProp vendorDoc ''vendor_id'' = Some (JStr ''acme'')
   \<and> loadInputConfig devArgs acceptAll vendorTree
       = Inr \<lparr>market = Some (JObj [(''market_id'', JStr ''bonbeauty'')]),
              products = Some (JObj [(''products'', JArr [])]),
              vendors = [(''v1'', vendorDoc)], warnings = []\<rparr>
   \<and> map record_key (makeIncomingRows
         \<lparr>market = Some (JObj [(''market_id'', JStr ''bonbeauty'')]),
          products = Some (JObj [(''products'', JArr [])]),
          vendors = [(''v1'', vendorDoc)], warnings = []\<rparr>)
       = [''market'', ''products'', ''v1'']"
  using load_vendorTree by (simp add: makeIncomingRows_def vendorDoc_def)


text \<open>
  C9, amended. Whenever the load succeeds, every vendor directory \<^verbatim>\<open>vendors/<dir>\<close> with
  a \<^verbatim>\<open>products.yaml\<close>, \<^verbatim>\<open><dir>\<close> not being the name \<^verbatim>\<open>__proto__\<close>, yields the row of section
  \<^verbatim>\<open>vendor_products\<close> whose \<^verbatim>\<open>record_key\<close> is the directory name and whose \<^verbatim>\<open>data\<close> is the
  file's content, whatever \<^verbatim>\<open>vendor_id\<close> the file holds; and the warnings recorded are
  exactly those for missing files, so a disagreeing \<^verbatim>\<open>vendor_id\<close> records none. A directory
  named \<^verbatim>\<open>__proto__\<close> yields no row: no row of section \<^verbatim>\<open>vendor_products\<close> has that key.
\<close>

theorem vendor_directory_name_is_key:
  assumes "loadInputConfig args schemas tree = Inr input"
    and "vendorsDir tree = Some entries"
    and "distinct (map entryName entries)"
    and "e \<in> set entries" and "isDirectory e"
    and "vendorProductsYaml e = Some (Loaded doc)"
    and "entryName e \<noteq> ''__proto__''"
  shows "\<lparr>row_section = VendorProducts, record_key = entryName e, data = doc\<rparr>
           \<in> set (makeIncomingRows input)
       \<and> warnings input = missingFileWarnings args tree
       \<and> \<not> list_ex (\<lambda>r. row_section r = VendorProducts \<and> record_key r = ''__proto__'')
             (makeIncomingRows input)"
proof -
  from assms(1,2) obtain mkt warns1 prods warns2 vs warns3 where
    l1: "loadOptional (marketYamlPath args) (marketYaml tree) (marketSchema schemas)
           ''market.yaml'' [] = Inr (mkt, warns1)"
    and l2: "loadOptional (productsYamlPath args) (productsYaml tree) (productsSchema schemas)
           ''products.yaml'' warns1 = Inr (prods, warns2)"
    and l3: "loadVendors args schemas entries [] warns2 = Inr (vs, warns3)"
    and inp: "input = \<lparr>market = mkt, products = prods, vendors = vs, warnings = warns3\<rparr>"
    by (auto simp: loadInputConfig_def split: sum.splits prod.splits)
  have w1: "warns1 = (if marketYaml tree = None then [''Missing file: '' @ marketYamlPath args] else [])"
    using l1 by (auto simp: loadOptional_def split: option.splits sum.splits)
  have w2: "warns2 = warns1 @ (if productsYaml tree = None then [''Missing file: '' @ productsYamlPath args] else [])"
    using l2 by (auto simp: loadOptional_def split: option.splits sum.splits)
  have w3: "warnings input = missingFileWarnings args tree"
    using loadVendors_warnings[OF l3] w1 w2 assms(2) inp
    by (simp add: missingFileWarnings_def)
  have "(entryName e, doc) \<in> set vs"
    using loadVendors_row[OF l3 assms(3,4,5,6,7)] .
  then have "\<lparr>row_section = VendorProducts, record_key = entryName e, data = doc\<rparr>
           \<in> set (makeIncomingRows input)"
    using inp by (force simp: makeIncomingRows_def)
  moreover have "\<not> list_ex (\<lambda>r. row_section r = VendorProducts \<and> record_key r = ''__proto__'')
             (makeIncomingRows input)"
  proof -
    have "''__proto__'' \<notin> fst ` set vs" using loadVendors_proto [OF l3] by simp
    then show ?thesis
      using inp
      by (cases mkt; cases prods) (auto simp: makeIncomingRows_def list_ex_iff image_iff)
  qed
  ultimately show ?thesis using w3 by simp
qed


theorem vendor_directory_name_is_key_witness:
  "loadInputConfig devArgs acceptAll vendorTree
     = Inr \<lparr>market = Some (JObj [(''market_id'', JStr ''bonbeauty'')]),
            products = Some (JObj [(''products'', JArr [])]),
            vendors = [(''v1'', vendorDoc)], warnings = []\<rparr>
   \<and> vendorsDir vendorTree = Some [\<lparr>entryName = ''v1'', isDirectory = True,
                                     vendorProductsYaml = Some (Loaded vendorDoc)\<rparr>]
   \<and> distinct (map entryName [\<lparr>entryName = ''v1'', isDirectory = True,
                                 vendorProductsYaml = Some (Loaded vendorDoc)\<rparr>])
   \<and> ''v1'' \<noteq> ''__proto__''
   \<and> \<lparr>row_section = VendorProducts, record_key = ''v1'', data = vendorDoc\<rparr>
       \<in> set (makeIncomingRows
                 \<lparr>market = Some (JObj [(''market_id'', JStr ''bonbeauty'')]),
                  products = Some (JObj [(''products'', JArr [])]),
                  vendors = [(''v1'', vendorDoc)], warnings = []\<rparr>)
   \<and> missingFileWarnings devArgs vendorTree = []"
proof -
  let ?e = "\<lparr>entryName = ''v1'', isDirectory = True, vendorProductsYaml = Some (Loaded vendorDoc)\<rparr>"
  have v: "vendorsDir vendorTree = Some [?e]" by (simp add: vendorTree_def)
  have d: "distinct (map entryName [?e])" by simp
  note th = vendor_directory_name_is_key [OF load_vendorTree v d, of ?e vendorDoc]
  from th have "\<lparr>row_section = VendorProducts, record_key = ''v1'', data = vendorDoc\<rparr>
       \<in> set (makeIncomingRows
                 \<lparr>market = Some (JObj [(''market_id'', JStr ''bonbeauty'')]),
                  products = Some (JObj [(''products'', JArr [])]),
                  vendors = [(''v1'', vendorDoc)], warnings = []\<rparr>)"
    by simp
  moreover from th have "missingFileWarnings devArgs vendorTree = []" by simp
  ultimately show ?thesis using load_vendorTree v d by simp
qed


section \<open>Fill\<close>

lemma upsertStored_frame:
  "\<not> (iid' = iid \<and> mid' = mid \<and> sec = row_section new \<and> k = record_key new) \<Longrightarrow>
   filter (hasKey iid' mid' sec k) (upsertStored stored iid mid new)
   = filter (hasKey iid' mid' sec k) stored"
  by (induction stored iid mid new rule: upsertStored.induct) (auto simp: hasKey_def)

lemma upsertRow_frame:
  "upsertRow iid mid s rk v w = (res, w') \<Longrightarrow>
   \<not> (iid' = iid \<and> mid' = mid \<and> sec = s \<and> k = rk) \<Longrightarrow>
   rowsAt w' iid' mid' sec k = rowsAt w iid' mid' sec k"
  by (auto simp: upsertRow_def andThen_def query_def emit_def rowsAt_def storedRows_def
      upsertStored_frame split: option.splits)

lemma fillStep_frame:
  assumes "fillStep args em r rep w = (res, w')"
    and "\<not> (sec = row_section r \<and> k = record_key r)"
  shows "rowsAt w' iid mid sec k = rowsAt w iid mid sec k"
proof -
  have u: "\<And>v res w'. upsertRow (instanceId args) (marketId args) (row_section r) (record_key r) v w = (res, w')
        \<Longrightarrow> rowsAt w' iid mid sec k = rowsAt w iid mid sec k"
    using assms(2) upsertRow_frame by blast
  show ?thesis
    using assms(1) u
    by (auto simp: fillStep_def andThen_def ret_def Let_def
        split: option.splits if_splits prod.splits sum.splits)
qed

lemma fillStep_skipped:
  assumes "fillStep args em r rep w = (res, w')"
    and "em (rowKey r) = Some e" and "\<not> snd (mergeFill (data e) (data r))"
  shows "w' = w \<and> res = Inr (rep\<lparr>skipped := skipped rep + 1\<rparr>)"
  using assms by (auto simp: fillStep_def ret_def Let_def)

lemma fillStep_not_skipped:
  assumes "fillStep args em r rep w = (Inr rep', w')"
    and "\<not> (case em (rowKey r) of None \<Rightarrow> False | Some e \<Rightarrow> \<not> snd (mergeFill (data e) (data r)))"
  shows "skipped rep' = skipped rep"
  using assms
  by (auto simp: fillStep_def andThen_def ret_def Let_def
        split: option.splits if_splits prod.splits sum.splits)

lemma fill_loop:
  assumes "forEach (fillStep args em) rs rep w = (Inr rep', w')"
  shows "skipped rep' = skipped rep
           + length (filter (\<lambda>r. case em (rowKey r) of None \<Rightarrow> False
                                  | Some e \<Rightarrow> \<not> snd (mergeFill (data e) (data r))) rs)
       \<and> ((\<forall>r \<in> set rs. row_section r = sec \<and> record_key r = k \<longrightarrow>
               (case em (rowKey r) of None \<Rightarrow> False
                | Some e \<Rightarrow> \<not> snd (mergeFill (data e) (data r))))
            \<longrightarrow> rowsAt w' iid mid sec k = rowsAt w iid mid sec k)"
  using assms
proof (induction rs arbitrary: rep w)
  case Nil
  then show ?case by simp
next
  case (Cons r rs)
  from Cons.prems obtain rep1 w1 where
    s: "fillStep args em r rep w = (Inr rep1, w1)"
    and l: "forEach (fillStep args em) rs rep1 w1 = (Inr rep', w')"
    by (auto split: prod.splits sum.splits)
  note ih = Cons.IH[OF l]
  let ?sk = "\<lambda>r. case em (rowKey r) of None \<Rightarrow> False
                  | Some e \<Rightarrow> \<not> snd (mergeFill (data e) (data r))"
  have c: "skipped rep1 = skipped rep + (if ?sk r then 1 else 0)"
  proof (cases "?sk r")
    case True
    then obtain e where "em (rowKey r) = Some e" "\<not> snd (mergeFill (data e) (data r))"
      by (auto split: option.splits)
    from fillStep_skipped[OF s this] True show ?thesis by auto
  next
    case False
    then show ?thesis using fillStep_not_skipped[OF s] by simp
  qed
  have f: "(\<forall>x \<in> set (r # rs). row_section x = sec \<and> record_key x = k \<longrightarrow> ?sk x)
            \<Longrightarrow> rowsAt w1 iid mid sec k = rowsAt w iid mid sec k"
  proof -
    assume a: "\<forall>x \<in> set (r # rs). row_section x = sec \<and> record_key x = k \<longrightarrow> ?sk x"
    show ?thesis
    proof (cases "sec = row_section r \<and> k = record_key r")
      case True
      then have "?sk r" using a by simp
      then obtain e where "em (rowKey r) = Some e" "\<not> snd (mergeFill (data e) (data r))"
        by (auto split: option.splits)
      from fillStep_skipped[OF s this] show ?thesis by simp
    next
      case False
      then show ?thesis using fillStep_frame[OF s] by blast
    qed
  qed
  show ?case using ih c f by auto
qed

lemma getExistingRows_result:
  "getExistingRows (instanceId args) (marketId args) w = (Inr rs, w1) \<Longrightarrow>
   rs = existingRowsOf w args \<and> storage w1 = storage w \<and> tables w1 = tables w \<and> files w1 = files w"
  by (auto simp: getExistingRows_def andThen_def query_def emit_def existingRowsOf_def
      storedRows_def split: option.splits)

lemma incoming_rows_unique:
  assumes "distinct (map fst (vendors input))"
    and "x \<in> set (makeIncomingRows input)" and "r \<in> set (makeIncomingRows input)"
    and "row_section x = row_section r" and "record_key x = record_key r"
  shows "x = r"
proof -
  have v: "\<And>k v v'. (k, v) \<in> set (vendors input) \<Longrightarrow> (k, v') \<in> set (vendors input) \<Longrightarrow> v = v'"
    using assms(1) by (metis map_of_is_SomeI option.inject)
  show ?thesis
  proof (cases "market input"; cases "products input")
  qed (use assms(2-5) v in \<open>auto simp: makeIncomingRows_def\<close>)
qed

lemma fill_example:
  "executeFill devArgs vendorInput (initialReport devArgs) fillWorld
   = (Inr ((initialReport devArgs)\<lparr>inserted := 2, skipped := 1\<rparr>),
      fillWorld\<lparr>storage := Some [(''gp-dev'', ''bonbeauty'',
          \<lparr>row_section = Market, record_key = ''market'', data = JObj [(''market_id'', JStr ''bonbeauty'')]\<rparr>),
         (''gp-dev'', ''bonbeauty'',
          \<lparr>row_section = Products, record_key = ''products'', data = JObj [(''products'', JArr [])]\<rparr>),
         (''gp-dev'', ''bonbeauty'',
          \<lparr>row_section = VendorProducts, record_key = ''v1'', data = vendorDoc\<rparr>)],
        trace := [Query (SelectStored ''gp-dev'' ''bonbeauty''),
                  Query (Upsert ''gp-dev'' ''bonbeauty'' Products ''products'' (JObj [(''products'', JArr [])])),
                  Query (Upsert ''gp-dev'' ''bonbeauty'' VendorProducts ''v1'' vendorDoc)]\<rparr>)"
  by (simp add: executeFill_def getExistingRows_def andThen_def query_def emit_def fillWorld_def
     devArgs_def vendorInput_def makeIncomingRows_def fillStep_def existingMapOf_def rowKey_def
     sectionName_def inScope_def initialReport_def upsertRow_def ret_def Let_def)

lemma skipped_example: "countedSkipped fillWorld devArgs
     \<lparr>row_section = Market, record_key = ''market'', data = JObj [(''market_id'', JStr ''bonbeauty'')]\<rparr>"
  by (simp add: countedSkipped_def existingRowsOf_def storedRows_def fillWorld_def devArgs_def
      existingMapOf_def rowKey_def sectionName_def inScope_def)


text \<open>
  C10 (the changed flag is sound). If \<open>mergeFill current incoming\<close> returns
  \<open>changed = False\<close>, the value it returns is \<open>current\<close>. Consequently, in an
  \<open>executeFill\<close> that succeeds (vendor names distinct, as in a directory listing), the
  counter \<open>skipped\<close> grows by the number of incoming rows whose stored counterpart merges
  without change, and for each such row the stored rows under its primary key are after
  the run what they were before.
\<close>

theorem skipped_rows_untouched:
  "(\<not> snd (mergeFill current incoming) \<longrightarrow> fst (mergeFill current incoming) = current)
   \<and> (executeFill args input report w = (Inr report', w') \<and> distinct (map fst (vendors input)) \<longrightarrow>
        skipped report' = skipped report
            + length (filter (countedSkipped w args) (makeIncomingRows input))
        \<and> (\<forall>r \<in> set (makeIncomingRows input). countedSkipped w args r
              \<longrightarrow> rowsAt w' (instanceId args) (marketId args) (row_section r) (record_key r)
                  = rowsAt w (instanceId args) (marketId args) (row_section r) (record_key r)))"
proof (intro conjI impI)
  show "\<not> snd (mergeFill current incoming) \<Longrightarrow> fst (mergeFill current incoming) = current"
    using unchanged_all(1) by blast
next
  assume "executeFill args input report w = (Inr report', w') \<and> distinct (map fst (vendors input))"
  then have e: "executeFill args input report w = (Inr report', w')"
    and dv: "distinct (map fst (vendors input))" by simp_all
  from e obtain rs w1 where
    g: "getExistingRows (instanceId args) (marketId args) w = (Inr rs, w1)"
    and l: "forEach (fillStep args (existingMapOf rs)) (makeIncomingRows input) report w1 = (Inr report', w')"
    by (auto simp: executeFill_def andThen_def split: prod.splits sum.splits)
  have rs: "rs = existingRowsOf w args" and st: "storage w1 = storage w"
    using getExistingRows_result[OF g] by simp_all
  have sk: "(\<lambda>r. case existingMapOf rs (rowKey r) of None \<Rightarrow> False
                  | Some e \<Rightarrow> \<not> snd (mergeFill (data e) (data r))) = countedSkipped w args"
    by (auto simp: countedSkipped_def rs fun_eq_iff)
  have r1: "\<And>sec k. rowsAt w1 (instanceId args) (marketId args) sec k
                 = rowsAt w (instanceId args) (marketId args) sec k"
    using st by (simp add: rowsAt_def storedRows_def)
  show "skipped report' = skipped report
            + length (filter (countedSkipped w args) (makeIncomingRows input))"
    using fill_loop[OF l] sk by simp
  show "\<forall>r \<in> set (makeIncomingRows input). countedSkipped w args r
              \<longrightarrow> rowsAt w' (instanceId args) (marketId args) (row_section r) (record_key r)
                  = rowsAt w (instanceId args) (marketId args) (row_section r) (record_key r)"
  proof (intro ballI impI)
    fix r assume m: "r \<in> set (makeIncomingRows input)" and a: "countedSkipped w args r"
    have a': "\<forall>x \<in> set (makeIncomingRows input).
                  row_section x = row_section r \<and> record_key x = record_key r \<longrightarrow>
                  (case existingMapOf rs (rowKey x) of None \<Rightarrow> False
                   | Some e \<Rightarrow> \<not> snd (mergeFill (data e) (data x)))"
    proof (intro ballI impI)
      fix x assume "x \<in> set (makeIncomingRows input)"
        and "row_section x = row_section r \<and> record_key x = record_key r"
      then have "x = r" using incoming_rows_unique[OF dv _ m] by blast
      with a show "case existingMapOf rs (rowKey x) of None \<Rightarrow> False
                   | Some e \<Rightarrow> \<not> snd (mergeFill (data e) (data x))"
        by (auto simp: countedSkipped_def rs split: option.splits)
    qed
    have "rowsAt w' (instanceId args) (marketId args) (row_section r) (record_key r)
          = rowsAt w1 (instanceId args) (marketId args) (row_section r) (record_key r)"
      using fill_loop[OF l, of "row_section r" "record_key r" "instanceId args" "marketId args"] a'
      by blast
    then show "rowsAt w' (instanceId args) (marketId args) (row_section r) (record_key r)
                  = rowsAt w (instanceId args) (marketId args) (row_section r) (record_key r)"
      using r1 by simp
  qed
qed

theorem skipped_rows_untouched_witness:
  "\<not> snd (mergeFill (JObj [(''market_id'', JStr ''bonbeauty'')]) (JObj [(''market_id'', JStr ''bonbeauty'')]))
   \<and> fst (mergeFill (JObj [(''market_id'', JStr ''bonbeauty'')]) (JObj [(''market_id'', JStr ''bonbeauty'')]))
       = JObj [(''market_id'', JStr ''bonbeauty'')]
   \<and> fst (executeFill devArgs vendorInput (initialReport devArgs) fillWorld)
       = Inr ((initialReport devArgs)\<lparr>inserted := 2, skipped := 1\<rparr>)
   \<and> distinct (map fst (vendors vendorInput))
   \<and> countedSkipped fillWorld devArgs
        \<lparr>row_section = Market, record_key = ''market'', data = JObj [(''market_id'', JStr ''bonbeauty'')]\<rparr>
   \<and> rowsAt (snd (executeFill devArgs vendorInput (initialReport devArgs) fillWorld))
         ''gp-dev'' ''bonbeauty'' Market ''market''
       = rowsAt fillWorld ''gp-dev'' ''bonbeauty'' Market ''market''"
proof -
  let ?doc = "JObj [(''market_id'', JStr ''bonbeauty'')]"
  let ?row = "\<lparr>row_section = Market, record_key = ''market'', data = ?doc\<rparr>"
  have c: "\<not> snd (mergeFill ?doc ?doc)" by simp
  have d: "distinct (map fst (vendors vendorInput))" by (simp add: vendorInput_def)
  have m: "?row \<in> set (makeIncomingRows vendorInput)"
    by (simp add: makeIncomingRows_def vendorInput_def)
  note th = skipped_rows_untouched [of ?doc ?doc devArgs vendorInput "initialReport devArgs" fillWorld]
  from th c have "fst (mergeFill ?doc ?doc) = ?doc" by blast
  moreover from th fill_example d m skipped_example
  have "rowsAt (snd (executeFill devArgs vendorInput (initialReport devArgs) fillWorld))
         (instanceId devArgs) (marketId devArgs) (row_section ?row) (record_key ?row)
       = rowsAt fillWorld (instanceId devArgs) (marketId devArgs) (row_section ?row) (record_key ?row)"
    by (metis snd_conv)
  ultimately show ?thesis
    using c d skipped_example fill_example by (simp add: devArgs_def)
qed


section \<open>Dry runs and counts\<close>

subsection \<open>Relations between the world before and after\<close>

lemma extends_iff: "extends w w' \<longleftrightarrow> (\<exists>evs. trace w' = trace w @ evs)"
proof
  assume "extends w w'"
  then have "trace w' = trace w @ drop (length (trace w)) (trace w')"
    unfolding extends_def using append_take_drop_id [of "length (trace w)" "trace w'"] by simp
  then show "\<exists>evs. trace w' = trace w @ evs" ..
next
  assume "\<exists>evs. trace w' = trace w @ evs"
  then show "extends w w'" by (auto simp: extends_def)
qed

lemma extends_newEvents: "extends w w' \<Longrightarrow> trace w' = trace w @ newEvents w w'"
  unfolding extends_def newEvents_def
  using append_take_drop_id [of "length (trace w)" "trace w'"] by simp

lemma newEvents_append: "trace w' = trace w @ evs \<Longrightarrow> newEvents w w' = evs"
  by (simp add: newEvents_def)

lemma events_trans:
  assumes "extends a b" "extends b c"
  shows "extends a c \<and> newEvents a c = newEvents a b @ newEvents b c"
proof -
  have t: "trace c = trace a @ newEvents a b @ newEvents b c"
    using extends_newEvents [OF assms(1)] extends_newEvents [OF assms(2)] by simp
  then have "extends a c" unfolding extends_iff by blast
  moreover have "newEvents a c = newEvents a b @ newEvents b c"
    using t by (rule newEvents_append)
  ultimately show ?thesis by simp
qed

lemma quiet_refl: "quiet w w"
  by (simp add: quiet_def extends_def newEvents_def)

lemma quiet_trans: "quiet a b \<Longrightarrow> quiet b c \<Longrightarrow> quiet a c"
  unfolding quiet_def using events_trans [of a b c] by auto


lemma keeps_ret: "preorder R \<Longrightarrow> keeps R (ret x)"
  by (simp add: keeps_def ret_def preorder_def)

lemma keeps_throw: "preorder R \<Longrightarrow> keeps R (throw e)"
  by (simp add: keeps_def throw_def preorder_def)


lemma keeps_pure: "preorder R \<Longrightarrow> keeps R (\<lambda>w. (f w, w))"
  by (simp add: keeps_def preorder_def)

lemma keeps_state: "(\<And>v. keeps R (g v)) \<Longrightarrow> keeps R (\<lambda>w. g w w)"
  by (simp add: keeps_def)

lemma keeps_andThen:
  assumes "preorder R" "keeps R m" "\<And>x. keeps R (f x)"
  shows "keeps R (andThen m f)"
  unfolding keeps_def andThen_def
proof (intro allI impI)
  fix w r w'
  assume a: "(case m w of (Inl e, w') \<Rightarrow> (Inl e, w') | (Inr x, w') \<Rightarrow> f x w') = (r, w')"
  obtain r1 w1 where m: "m w = (r1, w1)" by (cases "m w")
  then have r1: "R w w1" using assms(2) by (simp add: keeps_def)
  show "R w w'"
  proof (cases r1)
    case (Inl e)
    then show ?thesis using a m r1 by simp
  next
    case (Inr x)
    then have "f x w1 = (r, w')" using a m by simp
    then have "R w1 w'" using assms(3) by (simp add: keeps_def)
    then show ?thesis using r1 assms(1) unfolding preorder_def by blast
  qed
qed

lemma keeps_forEach:
  assumes "preorder R" "\<And>x s. x \<in> set xs \<Longrightarrow> keeps R (body x s)"
  shows "keeps R (forEach body xs s)"
  using assms(2)
proof (induction xs arbitrary: s)
  case Nil
  then show ?case using assms(1) by (simp add: keeps_def preorder_def)
next
  case (Cons x xs)
  have b: "keeps R (body x s)" using Cons.prems by simp
  have l: "\<And>s'. keeps R (forEach body xs s')" using Cons by simp
  show ?case
    unfolding keeps_def
  proof (intro allI impI)
    fix w r w'
    assume a: "forEach body (x # xs) s w = (r, w')"
    obtain r1 w1 where m: "body x s w = (r1, w1)" by (cases "body x s w")
    then have r1: "R w w1" using b by (simp add: keeps_def)
    show "R w w'"
    proof (cases r1)
      case (Inl e)
      then show ?thesis using a m r1 by simp
    next
      case (Inr s')
      then have "forEach body xs s' w1 = (r, w')" using a m by simp
      then have "R w1 w'" using l by (simp add: keeps_def)
      then show ?thesis using r1 assms(1) unfolding preorder_def by blast
    qed
  qed
qed

lemma keeps_forEach_dyn:
  assumes "preorder R" "\<And>x s. keeps R (body x s)"
  shows "keeps R (\<lambda>w. forEach body (g w) s w)"
  using keeps_forEach [OF assms(1), of _ body] assms(2) unfolding keeps_def by blast

lemma keeps_if: "(c \<Longrightarrow> keeps R a) \<Longrightarrow> (\<not> c \<Longrightarrow> keeps R b) \<Longrightarrow> keeps R (if c then a else b)"
  by simp



lemma preorder_readOnly: "preorder readOnly"
  unfolding preorder_def readOnly_def using quiet_refl quiet_trans by auto

lemma readOnly_sameCatalog:
  "sameCatalog wa wb \<Longrightarrow> readOnly wa wa' \<Longrightarrow> readOnly wb wb' \<Longrightarrow> sameCatalog wa' wb'"
  by (simp add: sameCatalog_def readOnly_def quiet_def)


lemma catalogIO_ret: "catalogIO (ret x)"
  by (simp add: catalogIO_def keeps_ret preorder_readOnly pureOn_def ret_def)

lemma catalogIO_throw: "catalogIO (throw e)"
  by (simp add: catalogIO_def keeps_throw preorder_readOnly pureOn_def throw_def)

lemma catalogIO_if: "(c \<Longrightarrow> catalogIO a) \<Longrightarrow> (\<not> c \<Longrightarrow> catalogIO b) \<Longrightarrow> catalogIO (if c then a else b)"
  by simp

lemma catalogIO_emit:
  "list_all (\<lambda>e. \<not> isDML e \<and> \<not> isFileWrite e) evs \<Longrightarrow> catalogIO (emit evs)"
  by (simp add: catalogIO_def keeps_def pureOn_def emit_def readOnly_def quiet_def storedRows_def
      extends_def newEvents_def)

lemma catalogIO_query: "\<not> isDML (Query s) \<Longrightarrow> catalogIO (query s)"
  by (simp add: query_def catalogIO_emit)

lemma catalogIO_andThen:
  assumes "catalogIO m" "\<And>x. catalogIO (f x)"
  shows "catalogIO (andThen m f)"
proof -
  have k: "keeps readOnly (andThen m f)"
    using assms by (auto simp: catalogIO_def intro: keeps_andThen [OF preorder_readOnly])
  have p: "pureOn (andThen m f)"
    unfolding pureOn_def
  proof (intro allI impI)
    fix wa wb assume sc: "sameCatalog wa wb"
    obtain ra wa' where a: "m wa = (ra, wa')" by (cases "m wa")
    obtain rb wb' where b: "m wb = (rb, wb')" by (cases "m wb")
    have eq: "ra = rb" using assms(1) sc a b by (auto simp: catalogIO_def pureOn_def dest!: spec)
    have "readOnly wa wa'" "readOnly wb wb'"
      using assms(1) a b by (auto simp: catalogIO_def keeps_def)
    then have sc': "sameCatalog wa' wb'" using sc readOnly_sameCatalog by blast
    show "fst (andThen m f wa) = fst (andThen m f wb)"
    proof (cases ra)
      case (Inl e)
      then show ?thesis using a b eq by (simp add: andThen_def)
    next
      case (Inr x)
      have "fst (f x wa') = fst (f x wb')"
        using assms(2) [of x] sc' by (simp add: catalogIO_def pureOn_def)
      moreover have "rb = Inr x" using eq Inr by simp
      ultimately show ?thesis using a b Inr by (simp add: andThen_def)
    qed
  qed
  show ?thesis using k p by (simp add: catalogIO_def)
qed

lemma catalogIO_forEach:
  assumes "\<And>x s. x \<in> set xs \<Longrightarrow> catalogIO (body x s)"
  shows "catalogIO (forEach body xs s)"
  using assms
proof (induction xs arbitrary: s)
  case Nil
  have "forEach body [] s = ret s" by (rule ext) (simp add: ret_def)
  then show ?case by (simp add: catalogIO_ret)
next
  case (Cons x xs)
  have "forEach body (x # xs) s = andThen (body x s) (\<lambda>s'. forEach body xs s')"
    by (rule ext) (simp add: andThen_def)
  then show ?case using Cons by (simp add: catalogIO_andThen)
qed

lemma catalogIO_read:
  assumes "\<And>wa wb. sameCatalog wa wb \<Longrightarrow> f wa = f wb"
  shows "catalogIO (\<lambda>w. (f w, w))"
  using assms preorder_readOnly
  by (auto simp: catalogIO_def keeps_def pureOn_def preorder_def)

lemma catalogIO_dyn:
  assumes "\<And>wa wb. sameCatalog wa wb \<Longrightarrow> g wa = g wb" "\<And>v. catalogIO (m v)"
  shows "catalogIO (\<lambda>w. m (g w) w)"
  using assms by (auto simp: catalogIO_def keeps_def pureOn_def)

lemmas catalog_rules =
  catalogIO_ret catalogIO_throw catalogIO_andThen catalogIO_forEach catalogIO_if

lemma catalogIO_tableExists: "catalogIO (tableExists n)"
  unfolding tableExists_def
  by (intro catalog_rules catalogIO_query catalogIO_read) (auto simp: hasTable_def sameCatalog_def)

lemma catalogIO_lookup:
  "catalogIO (\<lambda>w. case map_of (tables w) n of
                    None \<Rightarrow> (Inl e, w)
                  | Some t \<Rightarrow> if c t then (Inl e', w) else (Inr (f t), w))"
proof -
  have eq: "(\<lambda>w. case map_of (tables w) n of
                    None \<Rightarrow> (Inl e, w)
                  | Some t \<Rightarrow> if c t then (Inl e', w) else (Inr (f t), w))
        = (\<lambda>w. (case map_of (tables w) n of
                    None \<Rightarrow> Inl e
                  | Some t \<Rightarrow> if c t then Inl e' else Inr (f t), w))"
    by (auto split: option.splits)
  have "catalogIO (\<lambda>w. (case map_of (tables w) n of
                    None \<Rightarrow> Inl e
                  | Some t \<Rightarrow> if c t then Inl e' else Inr (f t), w))"
    by (rule catalogIO_read) (simp add: sameCatalog_def)
  then show ?thesis unfolding eq .
qed

lemma catalogIO_countRows: "catalogIO (countRows n wh)"
  unfolding countRows_def
  by (auto split: sum.splits intro!: catalog_rules catalogIO_query catalogIO_lookup)


lemma catalogIO_getScopedSalesChannelIds: "catalogIO (getScopedSalesChannelIds mid)"
  unfolding getScopedSalesChannelIds_def
  by (auto split: sum.splits intro!: catalog_rules catalogIO_query catalogIO_lookup catalogIO_tableExists)

lemma jsonbColumns_cong: "sameCatalog wa wb \<Longrightarrow> jsonbColumns wa = jsonbColumns wb"
  by (simp add: jsonbColumns_def sameCatalog_def)

lemma catalogIO_discover: "catalogIO (discoverMetadataScopedTables mid)"
  unfolding discoverMetadataScopedTables_def
  apply (rule catalogIO_andThen)
   apply (rule catalogIO_query, simp)
  apply (rule catalogIO_dyn [where g = jsonbColumns])
   apply (erule jsonbColumns_cong)
  apply (auto split: sum.splits prod.splits intro!: catalog_rules catalogIO_countRows)
  done

lemma catalogIO_existingAssignmentTables: "catalogIO (existingAssignmentTables ids)"
  unfolding existingAssignmentTables_def
  by (auto intro!: catalog_rules catalogIO_tableExists)






















lemma distinct_buildScopedDeleteOrder: "distinct (buildScopedDeleteOrder m a)"
proof -
  have "distinct (foldl setAdd (foldl setAdd [] a) m)"
    by (auto simp: foldl_setAdd distinct_firstOcc set_firstOcc)
  then show ?thesis by (auto simp: buildScopedDeleteOrder_def Let_def)
qed


lemma map_of_objSet_other: "k' \<noteq> k \<Longrightarrow> map_of (objSet kvs k v) k' = map_of kvs k'"
  by (induction kvs) auto















lemma getExistingRows_cases:
  "getExistingRows iid mid w
   = (case storage w of
        None \<Rightarrow> (Inl (SqlError STORAGE_TABLE), w\<lparr>trace := trace w @ [Query (SelectStored iid mid)]\<rparr>)
      | Some stored \<Rightarrow>
          (Inr (map (\<lambda>r. snd (snd r)) (filter (inScope iid mid) stored)),
           w\<lparr>trace := trace w @ [Query (SelectStored iid mid)]\<rparr>))"
  by (simp add: getExistingRows_def andThen_def query_def emit_def split: option.splits)

lemma deleteStored_some:
  "storage w = Some stored \<Longrightarrow>
   deleteStored iid mid w
   = (Inr (), w\<lparr>trace := trace w @ [Query (DeleteStored iid mid)],
               storage := Some (filter (\<lambda>r. \<not> inScope iid mid r) stored)\<rparr>)"
  by (simp add: deleteStored_def andThen_def query_def emit_def)











lemma andThen_Inr:
  assumes "andThen m f w = (Inr y, w')"
  obtains x w1 where "m w = (Inr x, w1)" and "f x w1 = (Inr y, w')"
  using assms by (auto simp: andThen_def split: prod.splits sum.splits)

section \<open>What the operations return\<close>

subsection \<open>What the statements return\<close>

lemma countRows_Inr:
  assumes "countRows n wh w = (Inr k, w')"
  obtains t where "map_of (tables w) n = Some t" and "whereOk t wh"
    and "k = length (filter (matches wh) (rows t))"
    and "w' = w\<lparr>trace := trace w @ [Query (SelectCount n wh)]\<rparr>"
  using assms
  by (auto simp: countRows_def throw_def andThen_def query_def emit_def
      split: sum.splits option.splits if_splits)

lemma deleteRows_Inr:
  assumes "deleteRows n wh w = (Inr k, w')"
  obtains t where "map_of (tables w) n = Some t" and "whereOk t wh"
    and "k = length (filter (matches wh) (rows t))"
    and "w' = w\<lparr>trace := trace w @ [Query (DeleteFrom n wh)],
                 tables := objSet (tables w) n (t\<lparr>rows := filter (\<lambda>r. \<not> matches wh r) (rows t)\<rparr>)\<rparr>"
  using assms
  by (auto simp: deleteRows_def throw_def andThen_def query_def emit_def
      split: sum.splits option.splits if_splits)

lemma catalogIO_same:
  assumes "catalogIO m" "m w = (r, w')"
  shows "tables w' = tables w \<and> storage w' = storage w"
  using assms by (auto simp: catalogIO_def keeps_def readOnly_def quiet_def)

lemma sameCatalog_same: "tables w' = tables w \<Longrightarrow> storage w' = storage w \<Longrightarrow> sameCatalog w' w"
  by (simp add: sameCatalog_def)

lemma hasTable_cong: "sameCatalog wa wb \<Longrightarrow> hasTable wa = hasTable wb"
  by (auto simp: sameCatalog_def hasTable_def fun_eq_iff)

lemma channelIds_cong: "sameCatalog wa wb \<Longrightarrow> channelIds wa m = channelIds wb m"
  by (simp add: sameCatalog_def channelIds_def)

lemma hasMatch_cong: "sameCatalog wa wb \<Longrightarrow> hasMatch wa = hasMatch wb"
  by (simp add: sameCatalog_def hasMatch_def fun_eq_iff)

lemma discovered_cong: "sameCatalog wa wb \<Longrightarrow> discovered wa m = discovered wb m"
  using jsonbColumns_cong [of wa wb] hasMatch_cong [of wa wb] by (simp add: discovered_def)

lemma assignmentTablesOf_cong:
  "sameCatalog wa wb \<Longrightarrow> assignmentTablesOf wa m = assignmentTablesOf wb m"
  using hasTable_cong [of wa wb] channelIds_cong [of wa wb m] by (simp add: assignmentTablesOf_def)

lemma scopeOf_cong: "sameCatalog wa wb \<Longrightarrow> scopeOf wa m = scopeOf wb m"
  using assignmentTablesOf_cong [of wa wb m] channelIds_cong [of wa wb m] discovered_cong [of wa wb m]
  by (simp add: scopeOf_def fun_eq_iff)

lemma scopedRows_cong: "sameCatalog wa wb \<Longrightarrow> scopedRows wa m = scopedRows wb m"
  using scopeOf_cong [of wa wb m]
  by (auto simp: scopedRows_def sameCatalog_def fun_eq_iff split: option.splits)

lemma externalCount_cong: "sameCatalog wa wb \<Longrightarrow> externalCount wa m = externalCount wb m"
  using scopedRows_cong [of wa wb m] by (simp add: externalCount_def sameCatalog_def)

lemma remaining_cong: "sameCatalog wa wb \<Longrightarrow> remaining wa m = remaining wb m"
  using scopeOf_cong [of wa wb m] by (simp add: remaining_def fun_eq_iff)


subsection \<open>What discovery finds\<close>

lemma discover_loop:
  assumes "forEach
             (\<lambda>(table_name, column_name) discovered.
                if table_name = STORAGE_TABLE then ret discovered
                else
                  (case quoteIdent column_name of
                     Inl e \<Rightarrow> throw e
                   | Inr q \<Rightarrow>
                       andThen (countRows table_name (MarketScope column_name mid))
                         (\<lambda>count.
                            ret (if count > 0
                                 then discovered @ [\<lparr>tableName = table_name,
                                                     columnName = column_name\<rparr>]
                                 else discovered))))
             xs acc v = (Inr r, v')"
    and "tables v = tables w"
  shows "r = acc @ map entryOf (filter (\<lambda>(T, c). T \<noteq> STORAGE_TABLE \<and> hasMatch w T (MarketScope c mid)) xs)"
  using assms
proof (induction xs arbitrary: acc v)
  case Nil
  then show ?case by simp
next
  case (Cons x xs)
  obtain tn cn where x: "x = (tn, cn)" by (cases x)
  show ?case
  proof (cases "tn = STORAGE_TABLE")
    case True
    then show ?thesis using Cons x by (simp add: ret_def)
  next
    case False
    from Cons.prems(1) x False obtain s1 v1 where
      b: "(case quoteIdent cn of
             Inl e \<Rightarrow> throw e
           | Inr q \<Rightarrow>
               andThen (countRows tn (MarketScope cn mid))
                 (\<lambda>count. ret (if count > 0 then acc @ [\<lparr>tableName = tn, columnName = cn\<rparr>]
                                else acc))) v = (Inr s1, v1)"
      and l: "forEach
             (\<lambda>(table_name, column_name) discovered.
                if table_name = STORAGE_TABLE then ret discovered
                else
                  (case quoteIdent column_name of
                     Inl e \<Rightarrow> throw e
                   | Inr q \<Rightarrow>
                       andThen (countRows table_name (MarketScope column_name mid))
                         (\<lambda>count.
                            ret (if count > 0
                                 then discovered @ [\<lparr>tableName = table_name,
                                                     columnName = column_name\<rparr>]
                                 else discovered))))
             xs s1 v1 = (Inr r, v')"
      by (auto split: prod.splits sum.splits)
    from b obtain q where "quoteIdent cn = Inr q"
      and a: "andThen (countRows tn (MarketScope cn mid))
                 (\<lambda>count. ret (if count > 0 then acc @ [\<lparr>tableName = tn, columnName = cn\<rparr>]
                                else acc)) v = (Inr s1, v1)"
      by (auto simp: throw_def split: sum.splits)
    from a obtain k v0 where c: "countRows tn (MarketScope cn mid) v = (Inr k, v0)"
      and r: "ret (if k > 0 then acc @ [\<lparr>tableName = tn, columnName = cn\<rparr>] else acc) v0
              = (Inr s1, v1)"
      by (rule andThen_Inr)
    from c obtain t where t: "map_of (tables v) tn = Some t"
      and k: "k = length (filter (matches (MarketScope cn mid)) (rows t))"
      and v0: "v0 = v\<lparr>trace := trace v @ [Query (SelectCount tn (MarketScope cn mid))]\<rparr>"
      by (rule countRows_Inr)
    have v1: "tables v1 = tables w" using r v0 Cons.prems(2) by (auto simp: ret_def)
    have hm: "hasMatch w tn (MarketScope cn mid) \<longleftrightarrow> k > 0"
      using t k Cons.prems(2) by (auto simp: hasMatch_def list_ex_iff filter_empty_conv)
    have s1: "s1 = acc @ (if k > 0 then [entryOf (tn, cn)] else [])"
      using r by (auto simp: ret_def entryOf_def)
    from Cons.IH [OF l v1] show ?thesis using x False hm s1 by simp
  qed
qed

lemma discover_Inr:
  assumes "discoverMetadataScopedTables mid w = (Inr ms, w')"
  shows "ms = map entryOf (discovered w mid)"
proof -
  let ?w0 = "w\<lparr>trace := trace w @ [Query SelectJsonbColumns]\<rparr>"
  have j: "jsonbColumns ?w0 = jsonbColumns w" by (simp add: jsonbColumns_def)
  from assms have "forEach
             (\<lambda>(table_name, column_name) discovered.
                if table_name = STORAGE_TABLE then ret discovered
                else
                  (case quoteIdent column_name of
                     Inl e \<Rightarrow> throw e
                   | Inr q \<Rightarrow>
                       andThen (countRows table_name (MarketScope column_name mid))
                         (\<lambda>count.
                            ret (if count > 0
                                 then discovered @ [\<lparr>tableName = table_name,
                                                     columnName = column_name\<rparr>]
                                 else discovered))))
             (jsonbColumns w) [] ?w0 = (Inr ms, w')"
    by (simp add: discoverMetadataScopedTables_def andThen_def query_def emit_def j)
  from discover_loop [OF this, of w] show ?thesis by (simp add: discovered_def)
qed

lemma ids_Inr:
  assumes "getScopedSalesChannelIds mid w = (Inr ids, w')"
  shows "ids = channelIds w mid"
  using assms
  by (auto simp: getScopedSalesChannelIds_def channelIds_def tableExists_def hasTable_def
      andThen_def ret_def query_def emit_def STORAGE_TABLE_def
      split: option.splits if_splits)

lemma assignment_loop:
  assumes "forEach (\<lambda>name assignmentTables.
                   andThen (tableExists name)
                     (\<lambda>exists. ret (if exists then assignmentTables @ [name]
                                     else assignmentTables)))
             xs acc v = (Inr r, v')"
    and "sameCatalog v w"
  shows "r = acc @ filter (hasTable w) xs"
  using assms
proof (induction xs arbitrary: acc v)
  case Nil
  then show ?case by simp
next
  case (Cons x xs)
  let ?v1 = "v\<lparr>trace := trace v @ [Query (SelectTableExists x)]\<rparr>"
  have h: "hasTable ?v1 x = hasTable w x"
    using Cons.prems(2) by (simp add: hasTable_def sameCatalog_def)
  have sc: "sameCatalog ?v1 w" using Cons.prems(2) by (simp add: sameCatalog_def)
  have b: "andThen (tableExists x)
             (\<lambda>exists. ret (if exists then acc @ [x] else acc)) v
           = (Inr (if hasTable w x then acc @ [x] else acc), ?v1)"
    using h by (simp add: andThen_def tableExists_def query_def emit_def ret_def)
  from Cons.prems(1) have
    "forEach (\<lambda>name assignmentTables.
                   andThen (tableExists name)
                     (\<lambda>exists. ret (if exists then assignmentTables @ [name]
                                     else assignmentTables)))
             xs (if hasTable w x then acc @ [x] else acc) ?v1 = (Inr r, v')"
    by (simp add: b)
  from Cons.IH [OF this sc] show ?case by simp
qed

lemma assignment_Inr:
  assumes "existingAssignmentTables ids w = (Inr as, w')"
  shows "as = (if ids = [] then [] else filter (hasTable w) CHANNEL_ASSIGNMENT_TABLES)"
proof (cases "ids = []")
  case True
  then show ?thesis using assms by (simp add: existingAssignmentTables_def ret_def)
next
  case False
  then have "forEach (\<lambda>name assignmentTables.
                   andThen (tableExists name)
                     (\<lambda>exists. ret (if exists then assignmentTables @ [name]
                                     else assignmentTables)))
             CHANNEL_ASSIGNMENT_TABLES [] w = (Inr as, w')"
    using assms by (simp add: existingAssignmentTables_def)
  from assignment_loop [OF this, of w] show ?thesis using False by (simp add: sameCatalog_def)
qed


subsection \<open>The deletion loop\<close>

lemma strip_None [simp]: "strip None t = t"
  by (simp add: strip_def)

lemma map_option_strip_None [simp]: "map_option (strip None) x = x"
  by (cases x) simp_all

lemma matching_None [simp]: "matching None t = 0"
  by (simp add: matching_def)

lemma count_step:
  assumes "andThen (countRows n wh) (\<lambda>k. ret (rep\<lparr>deleted := deleted rep + k\<rparr>)) w = (Inr rep', w')"
  shows "rep' = rep\<lparr>deleted := deleted rep + matching (Some wh) (map_of (tables w) n)\<rparr>
       \<and> tables w' = tables w \<and> storage w' = storage w"
proof -
  from assms obtain k w1 where c: "countRows n wh w = (Inr k, w1)"
    and r: "ret (rep\<lparr>deleted := deleted rep + k\<rparr>) w1 = (Inr rep', w')"
    by (rule andThen_Inr)
  from c obtain t where "map_of (tables w) n = Some t"
    "k = length (filter (matches wh) (rows t))"
    "w1 = w\<lparr>trace := trace w @ [Query (SelectCount n wh)]\<rparr>"
    by (rule countRows_Inr)
  then show ?thesis using r by (auto simp: ret_def matching_def)
qed

lemma delete_step:
  assumes "andThen (deleteRows n wh) (\<lambda>k. ret (rep\<lparr>deleted := deleted rep + k\<rparr>)) w = (Inr rep', w')"
  shows "rep' = rep\<lparr>deleted := deleted rep + matching (Some wh) (map_of (tables w) n)\<rparr>
       \<and> storage w' = storage w
       \<and> (\<forall>T. map_of (tables w') T
              = (if T = n then map_option (strip (Some wh)) (map_of (tables w) n)
                 else map_of (tables w) T))"
proof -
  from assms obtain k w1 where c: "deleteRows n wh w = (Inr k, w1)"
    and r: "ret (rep\<lparr>deleted := deleted rep + k\<rparr>) w1 = (Inr rep', w')"
    by (rule andThen_Inr)
  from c obtain t where t: "map_of (tables w) n = Some t"
    and k: "k = length (filter (matches wh) (rows t))"
    and w1: "w1 = w\<lparr>trace := trace w @ [Query (DeleteFrom n wh)],
                 tables := objSet (tables w) n (t\<lparr>rows := filter (\<lambda>r. \<not> matches wh r) (rows t)\<rparr>)\<rparr>"
    by (rule deleteRows_Inr)
  have "map_of (tables w1) T
        = (if T = n then map_option (strip (Some wh)) (map_of (tables w) n) else map_of (tables w) T)"
    for T
    using t w1 by (simp add: map_of_objSet strip_def)
  then show ?thesis using r t k w1 by (auto simp: ret_def matching_def)
qed

lemma deleteStep_Inr:
  assumes "deleteStep args ms ids as n rep w = (Inr rep', w')"
  shows "rep' = rep\<lparr>deleted := deleted rep
                  + matching (clauseOf ms ids as (marketId args) n) (map_of (tables w) n)\<rparr>
       \<and> storage w' = storage w
       \<and> (\<forall>T. map_of (tables w') T
              = (if \<not> dryRun args \<and> T = n
                 then map_option (strip (clauseOf ms ids as (marketId args) n)) (map_of (tables w) n)
                 else map_of (tables w) T))"
proof (cases "clauseOf ms ids as (marketId args) n")
  case None
  then have "deleteStep args ms ids as n rep w = (Inr rep, w)"
    by (auto simp: deleteStep_def clauseOf_def ret_def split: if_splits option.splits)
  then show ?thesis using assms None by simp
next
  case (Some wh)
  have "(if dryRun args then andThen (countRows n wh) (\<lambda>k. ret (rep\<lparr>deleted := deleted rep + k\<rparr>))
         else andThen (deleteRows n wh) (\<lambda>k. ret (rep\<lparr>deleted := deleted rep + k\<rparr>))) w
        = (Inr rep', w')"
    using assms Some
    by (auto simp: deleteStep_def clauseOf_def throw_def split: if_splits option.splits sum.splits)
  then show ?thesis
    using Some count_step [of n wh rep w rep' w'] delete_step [of n wh rep w rep' w']
    by (auto split: if_splits)
qed

lemma deleteLoop_Inr:
  "forEach (deleteStep args ms ids as) ns rep w = (Inr rep', w') \<Longrightarrow> distinct ns \<Longrightarrow>
   rep' = rep\<lparr>deleted := deleted rep
              + sum_list (map (\<lambda>n. matching (clauseOf ms ids as (marketId args) n)
                                      (map_of (tables w) n)) ns)\<rparr>
   \<and> storage w' = storage w
   \<and> (\<forall>T. map_of (tables w') T
          = (if \<not> dryRun args \<and> T \<in> set ns
             then map_option (strip (clauseOf ms ids as (marketId args) T)) (map_of (tables w) T)
             else map_of (tables w) T))"
proof (induction ns arbitrary: rep w)
  case Nil
  then show ?case by simp
next
  case (Cons n ns)
  from Cons.prems(1) obtain rep1 w1 where
    b: "deleteStep args ms ids as n rep w = (Inr rep1, w1)"
    and l: "forEach (deleteStep args ms ids as) ns rep1 w1 = (Inr rep', w')"
    by (auto split: prod.splits sum.splits)
  have d: "distinct ns" and nn: "n \<notin> set ns" using Cons.prems(2) by simp_all
  note s = deleteStep_Inr [OF b]
  note i = Cons.IH [OF l d]
  have same: "map_of (tables w1) m = map_of (tables w) m" if "m \<in> set ns" for m
    using s that nn by auto
  have sum: "sum_list (map (\<lambda>n. matching (clauseOf ms ids as (marketId args) n)
                                      (map_of (tables w1) n)) ns)
           = sum_list (map (\<lambda>n. matching (clauseOf ms ids as (marketId args) n)
                                      (map_of (tables w) n)) ns)"
    using same by (intro arg_cong [where f = sum_list] map_cong) simp_all
  have r: "rep' = rep\<lparr>deleted := deleted rep
              + sum_list (map (\<lambda>n. matching (clauseOf ms ids as (marketId args) n)
                                      (map_of (tables w) n)) (n # ns))\<rparr>"
    using i s sum by simp
  have t: "map_of (tables w') T
          = (if \<not> dryRun args \<and> T \<in> set (n # ns)
             then map_option (strip (clauseOf ms ids as (marketId args) T)) (map_of (tables w) T)
             else map_of (tables w) T)" for T
    using i s nn by (cases "T = n") auto
  show ?case using r t i s by simp
qed

lemma find_entryOf:
  "map_option (\<lambda>e. MarketScope (columnName e) m) (find (\<lambda>e. tableName e = n) (map entryOf ps))
   = map_option (\<lambda>c. MarketScope c m) (map_of ps n)"
  by (induction ps) (auto simp: entryOf_def)

lemma clauseOf_scopeOf:
  "clauseOf (map entryOf (discovered w m)) (channelIds w m) (assignmentTablesOf w m) m n = scopeOf w m n"
  by (auto simp: clauseOf_def scopeOf_def find_entryOf assignmentTablesOf_def)

lemma matching_scopedRows:
  "matching (scopeOf w m n) (map_of (tables w) n) = length (scopedRows w m n)"
  by (auto simp: matching_def scopedRows_def split: option.splits)

lemma set_buildScopedDeleteOrder: "set (buildScopedDeleteOrder ms as) = set ms \<union> set as"
  by (auto simp: buildScopedDeleteOrder_def Let_def foldl_setAdd set_firstOcc)

lemma sum_list_support:
  fixes f :: "'a \<Rightarrow> nat"
  assumes "distinct xs" "distinct ys"
    and "\<And>x. x \<in> set xs \<Longrightarrow> x \<notin> set ys \<Longrightarrow> f x = 0"
    and "\<And>y. y \<in> set ys \<Longrightarrow> y \<notin> set xs \<Longrightarrow> f y = 0"
  shows "sum_list (map f xs) = sum_list (map f ys)"
proof -
  have "sum_list (map f xs) = sum f (set xs)" using assms(1) by (simp add: sum_list_distinct_conv_sum_set)
  also have "\<dots> = sum f (set xs \<inter> set ys)"
    by (rule sum.mono_neutral_right) (use assms(3) in auto)
  also have "\<dots> = sum f (set ys)"
  proof (rule sum.mono_neutral_left)
    show "\<forall>i \<in> set ys - (set xs \<inter> set ys). f i = 0" using assms(4) by blast
  qed simp_all
  also have "\<dots> = sum_list (map f ys)" using assms(2) by (simp add: sum_list_distinct_conv_sum_set)
  finally show ?thesis .
qed

lemma scopeOf_outside:
  assumes "n \<notin> fst ` set (discovered w m)" "n \<notin> set (assignmentTablesOf w m)"
  shows "scopeOf w m n = None"
proof -
  have "map_of (discovered w m) n = None" using assms(1) by (simp add: map_of_eq_None_iff)
  then show ?thesis using assms(2) by (simp add: scopeOf_def)
qed

lemma scopedRows_outside:
  "n \<notin> fst ` set (discovered w m) \<Longrightarrow> n \<notin> set (assignmentTablesOf w m) \<Longrightarrow> scopedRows w m n = []"
  by (simp add: scopedRows_def scopeOf_outside split: option.splits)

lemma scopedRows_no_table:
  assumes "n \<notin> fst ` set (tables w)"
  shows "scopedRows w m n = []"
proof -
  have "map_of (tables w) n = None" using assms by (simp add: map_of_eq_None_iff)
  then show ?thesis by (simp add: scopedRows_def)
qed

lemma order_count:
  "sum_list (map (\<lambda>n. length (scopedRows w m n))
       (buildScopedDeleteOrder (map tableName (map entryOf (discovered w m))) (assignmentTablesOf w m)))
   = externalCount w m"
  unfolding externalCount_def
proof (rule sum_list_support)
  show "distinct (buildScopedDeleteOrder (map tableName (map entryOf (discovered w m)))
                    (assignmentTablesOf w m))"
    by (rule distinct_buildScopedDeleteOrder)
  show "distinct (remdups (map fst (tables w)))" by simp
next
  fix x
  assume "x \<notin> set (remdups (map fst (tables w)))"
  then show "length (scopedRows w m x) = 0" by (simp add: scopedRows_no_table)
next
  fix y
  assume "y \<notin> set (buildScopedDeleteOrder (map tableName (map entryOf (discovered w m)))
                    (assignmentTablesOf w m))"
  then have "y \<notin> fst ` set (discovered w m)" "y \<notin> set (assignmentTablesOf w m)"
    by (auto simp: set_buildScopedDeleteOrder entryOf_def image_iff)
  then show "length (scopedRows w m y) = 0" by (simp add: scopedRows_outside)
qed

lemma remaining_strip: "remaining w m T = strip (scopeOf w m T)"
  by (simp add: remaining_def strip_def fun_eq_iff)

lemma remaining_outside:
  assumes "T \<notin> set (buildScopedDeleteOrder (map tableName (map entryOf (discovered w m)))
               (assignmentTablesOf w m))"
  shows "remaining w m T t = t"
proof -
  have "T \<notin> fst ` set (discovered w m)" "T \<notin> set (assignmentTablesOf w m)"
    using assms by (auto simp: set_buildScopedDeleteOrder entryOf_def image_iff)
  then show ?thesis by (simp add: remaining_def scopeOf_outside)
qed

lemma deleteScopedDbConfig_Inr:
  assumes "deleteScopedDbConfig args rep w = (Inr rep', w')"
  shows "rep' = rep\<lparr>deleted := deleted rep + externalCount w (marketId args)\<rparr>
       \<and> storage w' = storage w
       \<and> (\<forall>T. map_of (tables w') T
              = (if dryRun args then map_of (tables w) T
                 else map_option (remaining w (marketId args) T) (map_of (tables w) T)))"
proof -
  let ?m = "marketId args"
  from assms obtain ms w1 where
    a: "discoverMetadataScopedTables ?m w = (Inr ms, w1)"
    and r1: "andThen (getScopedSalesChannelIds ?m)
               (\<lambda>salesChannelIds.
                  andThen (existingAssignmentTables salesChannelIds)
                    (\<lambda>assignmentTables.
                       forEach (deleteStep args ms salesChannelIds assignmentTables)
                         (buildScopedDeleteOrder (map tableName ms) assignmentTables) rep)) w1
             = (Inr rep', w')"
    unfolding deleteScopedDbConfig_def by (rule andThen_Inr)
  from r1 obtain ids w2 where
    b: "getScopedSalesChannelIds ?m w1 = (Inr ids, w2)"
    and r2: "andThen (existingAssignmentTables ids)
               (\<lambda>assignmentTables.
                  forEach (deleteStep args ms ids assignmentTables)
                    (buildScopedDeleteOrder (map tableName ms) assignmentTables) rep) w2
             = (Inr rep', w')"
    by (rule andThen_Inr)
  from r2 obtain as w3 where
    c: "existingAssignmentTables ids w2 = (Inr as, w3)"
    and l: "forEach (deleteStep args ms ids as)
              (buildScopedDeleteOrder (map tableName ms) as) rep w3 = (Inr rep', w')"
    by (rule andThen_Inr)
  have s1: "tables w1 = tables w \<and> storage w1 = storage w"
    using catalogIO_same [OF catalogIO_discover a] .
  have s2: "tables w2 = tables w \<and> storage w2 = storage w"
    using catalogIO_same [OF catalogIO_getScopedSalesChannelIds b] s1 by simp
  have s3: "tables w3 = tables w \<and> storage w3 = storage w"
    using catalogIO_same [OF catalogIO_existingAssignmentTables c] s2 by simp
  have c1: "sameCatalog w1 w" and c2: "sameCatalog w2 w"
    using s1 s2 by (simp_all add: sameCatalog_def)
  have ms: "ms = map entryOf (discovered w ?m)" using discover_Inr [OF a] by simp
  have ids: "ids = channelIds w ?m" using ids_Inr [OF b] channelIds_cong [OF c1] by simp
  have as: "as = assignmentTablesOf w ?m"
    using assignment_Inr [OF c] ids hasTable_cong [OF c2] by (simp add: assignmentTablesOf_def)
  let ?order = "buildScopedDeleteOrder (map tableName ms) as"
  note loop = deleteLoop_Inr [OF l distinct_buildScopedDeleteOrder]
  have cl: "clauseOf ms ids as ?m n = scopeOf w ?m n" for n
    using clauseOf_scopeOf [of w ?m n] ms ids as by simp
  have "sum_list (map (\<lambda>n. matching (clauseOf ms ids as ?m n) (map_of (tables w3) n)) ?order)
        = sum_list (map (\<lambda>n. length (scopedRows w ?m n)) ?order)"
    using s3 by (simp add: cl matching_scopedRows)
  also have "\<dots> = externalCount w ?m" using order_count [of w ?m] ms as by simp
  finally have cnt: "rep' = rep\<lparr>deleted := deleted rep + externalCount w ?m\<rparr>"
    using loop by simp
  have tb: "map_of (tables w') T
              = (if dryRun args then map_of (tables w) T
                 else map_option (remaining w ?m T) (map_of (tables w) T))" for T
  proof (cases "T \<in> set ?order")
    case True
    then show ?thesis using loop s3 by (simp add: cl remaining_strip)
  next
    case False
    then have "remaining w ?m T = (\<lambda>t. t)"
      using remaining_outside [of T w ?m] ms as by (simp add: fun_eq_iff)
    then show ?thesis using loop s3 False by (simp add: option.map_ident)
  qed
  show ?thesis using cnt tb loop s3 by simp
qed


subsection \<open>What the operations report\<close>

lemma getExistingRows_Inr:
  assumes "getExistingRows (instanceId args) (marketId args) w = (Inr rs, w')"
  obtains stored where "storage w = Some stored" and "rs = existingRowsOf w args"
    and "w' = w\<lparr>trace := trace w @ [Query (SelectStored (instanceId args) (marketId args))]\<rparr>"
  using assms
  by (auto simp: getExistingRows_cases existingRowsOf_def storedRows_def split: option.splits)

lemma clear_Inr:
  assumes "(if \<not> dryRun args then deleteStored (instanceId args) (marketId args) else ret ()) w
           = (Inr u, w')"
    and "storage w = Some stored"
  shows "tables w' = tables w \<and> files w' = files w
       \<and> storage w' = (if dryRun args then Some stored
                       else Some (filter (\<lambda>r. \<not> inScope (instanceId args) (marketId args) r) stored))"
  using assms by (auto simp: deleteStored_some ret_def split: if_splits)

lemma executeDelete_Inr:
  assumes "executeDelete args rep w = (Inr rep', w')"
  shows "rep' = rep\<lparr>deleted := deleted rep + length (existingRowsOf w args)
                              + externalCount w (marketId args)\<rparr>
       \<and> (\<forall>T. map_of (tables w') T
              = (if dryRun args then map_of (tables w) T
                 else map_option (remaining w (marketId args) T) (map_of (tables w) T)))"
proof -
  from assms obtain rs w1 where
    a: "getExistingRows (instanceId args) (marketId args) w = (Inr rs, w1)"
    and r1: "andThen (if \<not> dryRun args then deleteStored (instanceId args) (marketId args)
                      else ret ())
               (\<lambda>u. deleteScopedDbConfig args (rep\<lparr>deleted := deleted rep + length rs\<rparr>)) w1
             = (Inr rep', w')"
    unfolding executeDelete_def by (rule andThen_Inr)
  from a obtain stored where st: "storage w = Some stored" and rs: "rs = existingRowsOf w args"
    and w1: "w1 = w\<lparr>trace := trace w @ [Query (SelectStored (instanceId args) (marketId args))]\<rparr>"
    by (rule getExistingRows_Inr)
  from r1 obtain u w2 where
    b: "(if \<not> dryRun args then deleteStored (instanceId args) (marketId args) else ret ()) w1
        = (Inr u, w2)"
    and c: "deleteScopedDbConfig args (rep\<lparr>deleted := deleted rep + length rs\<rparr>) w2 = (Inr rep', w')"
    by (rule andThen_Inr)
  have s1: "storage w1 = Some stored" using st w1 by simp
  note cl = clear_Inr [OF b s1]
  have sc: "sameCatalog w2 w" using cl w1 st by (auto simp: sameCatalog_def)
  have t2: "tables w2 = tables w" using cl w1 by simp
  note d = deleteScopedDbConfig_Inr [OF c]
  show ?thesis
    using d rs t2 externalCount_cong [OF sc] remaining_cong [OF sc] by simp
qed

lemma insertLoop_Inr:
  "forEach (insertStep args) xs rep w = (Inr rep', w') \<Longrightarrow>
   rep' = rep\<lparr>inserted := inserted rep + length xs\<rparr> \<and> tables w' = tables w"
proof (induction xs arbitrary: rep w)
  case Nil
  then show ?case by simp
next
  case (Cons x xs)
  from Cons.prems obtain rep1 w1 where
    b: "insertStep args x rep w = (Inr rep1, w1)"
    and l: "forEach (insertStep args) xs rep1 w1 = (Inr rep', w')"
    by (auto split: prod.splits sum.splits)
  from b have "rep1 = rep\<lparr>inserted := inserted rep + 1\<rparr> \<and> tables w1 = tables w"
    by (auto simp: insertStep_def andThen_def ret_def upsertRow_def query_def emit_def
        split: if_splits option.splits)
  then show ?case using Cons.IH [OF l] by simp
qed

lemma executeOverwrite_Inr:
  assumes "executeOverwrite args input rep w = (Inr rep', w')"
  shows "rep' = rep\<lparr>deleted := deleted rep + length (existingRowsOf w args)
                              + externalCount w (marketId args),
                    inserted := inserted rep + length (makeIncomingRows input)\<rparr>
       \<and> (\<forall>T. map_of (tables w') T
              = (if dryRun args then map_of (tables w) T
                 else map_option (remaining w (marketId args) T) (map_of (tables w) T)))"
proof -
  from assms obtain rs w1 where
    a: "getExistingRows (instanceId args) (marketId args) w = (Inr rs, w1)"
    and r1: "andThen (if \<not> dryRun args then deleteStored (instanceId args) (marketId args)
                      else ret ())
               (\<lambda>u. andThen (deleteScopedDbConfig args (rep\<lparr>deleted := deleted rep + length rs\<rparr>))
                       (\<lambda>report'. forEach (insertStep args) (makeIncomingRows input) report')) w1
             = (Inr rep', w')"
    unfolding executeOverwrite_def by (rule andThen_Inr)
  from a obtain stored where st: "storage w = Some stored" and rs: "rs = existingRowsOf w args"
    and w1: "w1 = w\<lparr>trace := trace w @ [Query (SelectStored (instanceId args) (marketId args))]\<rparr>"
    by (rule getExistingRows_Inr)
  from r1 obtain u w2 where
    b: "(if \<not> dryRun args then deleteStored (instanceId args) (marketId args) else ret ()) w1
        = (Inr u, w2)"
    and r2: "andThen (deleteScopedDbConfig args (rep\<lparr>deleted := deleted rep + length rs\<rparr>))
               (\<lambda>report'. forEach (insertStep args) (makeIncomingRows input) report') w2
             = (Inr rep', w')"
    by (rule andThen_Inr)
  from r2 obtain rep3 w3 where
    c: "deleteScopedDbConfig args (rep\<lparr>deleted := deleted rep + length rs\<rparr>) w2 = (Inr rep3, w3)"
    and l: "forEach (insertStep args) (makeIncomingRows input) rep3 w3 = (Inr rep', w')"
    by (rule andThen_Inr)
  have s1: "storage w1 = Some stored" using st w1 by simp
  note cl = clear_Inr [OF b s1]
  have sc: "sameCatalog w2 w" using cl w1 st by (auto simp: sameCatalog_def)
  have t2: "tables w2 = tables w" using cl w1 by simp
  note d = deleteScopedDbConfig_Inr [OF c]
  note i = insertLoop_Inr [OF l]
  show ?thesis
    using d i rs t2 externalCount_cong [OF sc] remaining_cong [OF sc] by simp
qed












subsection \<open>The example runs\<close>

lemmas world_defs =
  channelWorld_def channelTable_def assignmentTable_def keyTable_def regionTable_def
  storeTable_def scenarioWorld_def scopedRow_def vendorDoc_def vendorInput_def fillInput_def

lemmas args_defs =
  deleteArgs_def overwriteArgs_def dryArgs_def dryDeleteArgs_def devArgs_def initialReport_def

lemmas run_defs =
  executeDelete_def executeOverwrite_def executeFill_def getExistingRows_cases
  deleteScopedDbConfig_def discoverMetadataScopedTables_def
  getScopedSalesChannelIds_def existingAssignmentTables_def tableExists_def hasTable_def
  countRows_def deleteRows_def selectRows_def quoteIdent_def identStart_def identChar_def
  deleteStep_def insertStep_def fillStep_def upsertRow_def deleteStored_def
  buildScopedDeleteOrder_def andThen_def ret_def throw_def query_def emit_def
  STORAGE_TABLE_def CHANNEL_ASSIGNMENT_TABLES_def marketOf_def inScope_def Let_def
  jsonTypes_def textTypes_def jsonbColumns_def rowIdString_def makeIncomingRows_def
  existingMapOf_def rowKey_def sectionName_def

lemmas scope_defs =
  externalCount_def scopedRows_def scopeOf_def assignmentTablesOf_def channelIds_def
  discovered_def hasMatch_def remaining_def scopedTables_def jsonbColumns_def hasTable_def
  STORAGE_TABLE_def CHANNEL_ASSIGNMENT_TABLES_def marketOf_def rowIdString_def
  existingRowsOf_def storedRows_def inScope_def



lemma scenario_dry_delete:
  "fst (executeDelete dryDeleteArgs (initialReport dryDeleteArgs) scenarioWorld)
     = Inr ((initialReport dryDeleteArgs)\<lparr>deleted := 8\<rparr>)"
  by (simp add: run_defs world_defs args_defs)

lemma dryDeleteArgs_fields:
  "instanceId dryDeleteArgs = ''gp-dev''" "marketId dryDeleteArgs = ''bonbeauty''"
  "operation dryDeleteArgs = Delete" "dbUrl dryDeleteArgs = Some ''postgres://db''"
  "confirm dryDeleteArgs = False" "force dryDeleteArgs = True" "dryRun dryDeleteArgs = True"
  "logLevel dryDeleteArgs = Info"
  by (simp_all add: dryDeleteArgs_def devArgs_def)







lemma scenario_scope:
  "length (existingRowsOf scenarioWorld dryDeleteArgs) = 3"
  "externalCount scenarioWorld ''bonbeauty'' = 5"
  "scopeOf scenarioWorld ''bonbeauty'' ''product'' = Some (MarketScope ''metadata'' ''bonbeauty'')"
  by (simp_all add: scope_defs world_defs args_defs)

lemma channel_overwrite:
  "fst (executeOverwrite overwriteArgs vendorInput (initialReport overwriteArgs) channelWorld)
   = Inr ((initialReport overwriteArgs)\<lparr>deleted := 5, inserted := 3\<rparr>)"
  by (simp add: run_defs world_defs args_defs)

lemma channel_scope:
  "scopeOf channelWorld ''bonbeauty'' ''sales_channel''
     = Some (MarketScope ''metadata'' ''bonbeauty'')"
  "scopeOf channelWorld ''bonbeauty'' ''product_sales_channel'' = Some (ChannelScope [''sc_1''])"
  "scopeOf channelWorld ''bonbeauty'' ''publishable_api_key_sales_channel''
     = Some (ChannelScope [''sc_1''])"
  "scopeOf channelWorld ''bonbeauty'' ''region'' = Some (MarketScope ''metadata'' ''bonbeauty'')"
  "scopeOf channelWorld ''bonbeauty'' ''store'' = None"
  by (simp_all add: scope_defs world_defs)

lemma channel_rows:
  "length (existingRowsOf channelWorld overwriteArgs) = 2"
  "externalCount channelWorld ''bonbeauty'' = 3"
  by (simp_all add: scope_defs world_defs args_defs)

lemma channel_tables:
  "map_of (tables channelWorld) ''sales_channel'' = Some channelTable"
  "map_of (tables channelWorld) ''product_sales_channel'' = Some assignmentTable"
  "map_of (tables channelWorld) ''publishable_api_key_sales_channel'' = Some keyTable"
  "map_of (tables channelWorld) ''region'' = Some regionTable"
  "map_of (tables channelWorld) ''store'' = Some storeTable"
  by (simp_all add: channelWorld_def)

lemma channel_remaining:
  "remaining channelWorld ''bonbeauty'' ''sales_channel'' channelTable
     = channelTable\<lparr>rows := [[(''id'', CText ''sc_2''),
          (''metadata'', CJsonb (JObj [(''gp_market_id'', JStr ''mercur'')]))]]\<rparr>"
  "remaining channelWorld ''bonbeauty'' ''product_sales_channel'' assignmentTable
     = assignmentTable\<lparr>rows := [[(''id'', CText ''psc_2''), (''sales_channel_id'', CText ''sc_2''),
          (''metadata'', CJsonb (JObj []))]]\<rparr>"
  "remaining channelWorld ''bonbeauty'' ''publishable_api_key_sales_channel'' keyTable = keyTable"
  "remaining channelWorld ''bonbeauty'' ''region'' regionTable = regionTable\<lparr>rows := []\<rparr>"
  "remaining channelWorld ''bonbeauty'' ''store'' storeTable = storeTable"
  by (simp_all add: remaining_def channel_scope)
     (simp_all add: channelTable_def assignmentTable_def keyTable_def regionTable_def marketOf_def)


subsection \<open>Dry runs\<close>





subsection \<open>The deleted count\<close>

text \<open>
  C5 (deleted count). When delete or overwrite returns a report, \<open>deleted\<close> has grown by
  the number of stored rows for \<open>(instance_id, market_id)\<close> plus the number of externally
  scoped rows (\<open>externalCount\<close>): over all tables, the rows of an assignment table whose
  \<^verbatim>\<open>sales_channel_id\<close> is the id of a sales channel of the market, and the rows of any other
  table that name the market as \<^verbatim>\<open>gp_market_id\<close> in its first discovered JSON column
  (\<open>scopeOf\<close>, \<open>scopedRows\<close>). These are the rows removed: after a run without \<open>dryRun\<close>
  every table is what it was without its scoped rows (\<open>remaining\<close>), so it has lost as
  many rows as were counted for it, and after a dry run every table is what it was.
  Overwrite adds the number of incoming rows to \<open>inserted\<close>.
\<close>

theorem deleted_count:
  "(executeDelete args report w = (Inr report', w') \<longrightarrow>
      report' = report\<lparr>deleted := deleted report + length (existingRowsOf w args)
                                     + externalCount w (marketId args)\<rparr>
      \<and> (\<forall>T. map_of (tables w') T
               = (if dryRun args then map_of (tables w) T
                  else map_option (remaining w (marketId args) T) (map_of (tables w) T))))
   \<and> (executeOverwrite args input report w = (Inr report2, w2) \<longrightarrow>
      report2 = report\<lparr>deleted := deleted report + length (existingRowsOf w args)
                                     + externalCount w (marketId args),
                        inserted := inserted report + length (makeIncomingRows input)\<rparr>
      \<and> (\<forall>T. map_of (tables w2) T
               = (if dryRun args then map_of (tables w) T
                  else map_option (remaining w (marketId args) T) (map_of (tables w) T))))
   \<and> (map_of (tables w) T = Some t \<longrightarrow>
        length (rows t) = length (scopedRows w (marketId args) T)
                          + length (rows (remaining w (marketId args) T t)))"
proof (intro conjI impI)
  assume "executeDelete args report w = (Inr report', w')"
  from executeDelete_Inr [OF this]
  show "report' = report\<lparr>deleted := deleted report + length (existingRowsOf w args)
                                     + externalCount w (marketId args)\<rparr>"
    and "\<forall>T. map_of (tables w') T
               = (if dryRun args then map_of (tables w) T
                  else map_option (remaining w (marketId args) T) (map_of (tables w) T))"
    by simp_all
next
  assume "executeOverwrite args input report w = (Inr report2, w2)"
  from executeOverwrite_Inr [OF this]
  show "report2 = report\<lparr>deleted := deleted report + length (existingRowsOf w args)
                                     + externalCount w (marketId args),
                        inserted := inserted report + length (makeIncomingRows input)\<rparr>"
    and "\<forall>T. map_of (tables w2) T
               = (if dryRun args then map_of (tables w) T
                  else map_option (remaining w (marketId args) T) (map_of (tables w) T))"
    by simp_all
next
  assume "map_of (tables w) T = Some t"
  then show "length (rows t) = length (scopedRows w (marketId args) T)
                          + length (rows (remaining w (marketId args) T t))"
    by (simp add: scopedRows_def remaining_def sum_length_filter_compl split: option.splits)
qed

theorem deleted_count_witness:
  "fst (executeDelete dryDeleteArgs (initialReport dryDeleteArgs) scenarioWorld)
     = Inr ((initialReport dryDeleteArgs)\<lparr>deleted := 8\<rparr>)
   \<and> length (existingRowsOf scenarioWorld dryDeleteArgs) = 3
   \<and> externalCount scenarioWorld (marketId dryDeleteArgs) = 5
   \<and> tables (snd (executeDelete dryDeleteArgs (initialReport dryDeleteArgs) scenarioWorld))
       = tables scenarioWorld
   \<and> fst (executeOverwrite overwriteArgs vendorInput (initialReport overwriteArgs) channelWorld)
       = Inr ((initialReport overwriteArgs)\<lparr>deleted := 5, inserted := 3\<rparr>)
   \<and> length (existingRowsOf channelWorld overwriteArgs) = 2
   \<and> externalCount channelWorld (marketId overwriteArgs) = 3
   \<and> length (makeIncomingRows vendorInput) = 3
   \<and> scopeOf channelWorld ''bonbeauty'' ''product_sales_channel'' = Some (ChannelScope [''sc_1''])
   \<and> scopeOf channelWorld ''bonbeauty'' ''region'' = Some (MarketScope ''metadata'' ''bonbeauty'')
   \<and> map_of (tables (snd (executeOverwrite overwriteArgs vendorInput
                             (initialReport overwriteArgs) channelWorld)))
         ''product_sales_channel''
       = Some (assignmentTable\<lparr>rows := [[(''id'', CText ''psc_2''),
                 (''sales_channel_id'', CText ''sc_2''), (''metadata'', CJsonb (JObj []))]]\<rparr>)
   \<and> map_of (tables (snd (executeOverwrite overwriteArgs vendorInput
                             (initialReport overwriteArgs) channelWorld))) ''region''
       = Some (regionTable\<lparr>rows := []\<rparr>)
   \<and> map_of (tables (snd (executeOverwrite overwriteArgs vendorInput
                             (initialReport overwriteArgs) channelWorld))) ''store''
       = Some storeTable"
proof -
  let ?d = "executeDelete dryDeleteArgs (initialReport dryDeleteArgs) scenarioWorld"
  let ?o = "executeOverwrite overwriteArgs vendorInput (initialReport overwriteArgs) channelWorld"
  have hd: "?d = (Inr ((initialReport dryDeleteArgs)\<lparr>deleted := 8\<rparr>), snd ?d)"
    using scenario_dry_delete by (metis prod.collapse)
  have ho: "?o = (Inr ((initialReport overwriteArgs)\<lparr>deleted := 5, inserted := 3\<rparr>), snd ?o)"
    using channel_overwrite by (metis prod.collapse)
  from deleted_count [of dryDeleteArgs "initialReport dryDeleteArgs" scenarioWorld
      "(initialReport dryDeleteArgs)\<lparr>deleted := 8\<rparr>" "snd ?d"] hd
  have td: "\<forall>T. map_of (tables (snd ?d)) T = map_of (tables scenarioWorld) T"
    by (simp add: dryDeleteArgs_fields)
  have "tables (snd ?d) = tables scenarioWorld"
    by (simp add: run_defs world_defs args_defs)
  moreover
  from deleted_count [of overwriteArgs "initialReport overwriteArgs" channelWorld _ _
      vendorInput "(initialReport overwriteArgs)\<lparr>deleted := 5, inserted := 3\<rparr>" "snd ?o"] ho
  have "\<forall>T. map_of (tables (snd ?o)) T
          = map_option (remaining channelWorld ''bonbeauty'' T) (map_of (tables channelWorld) T)"
    by (simp add: overwriteArgs_def devArgs_def)
  then have "map_of (tables (snd ?o)) ''product_sales_channel''
       = Some (assignmentTable\<lparr>rows := [[(''id'', CText ''psc_2''),
                 (''sales_channel_id'', CText ''sc_2''), (''metadata'', CJsonb (JObj []))]]\<rparr>)"
    and "map_of (tables (snd ?o)) ''region'' = Some (regionTable\<lparr>rows := []\<rparr>)"
    and "map_of (tables (snd ?o)) ''store'' = Some storeTable"
    by (simp_all add: channel_tables channel_remaining)
  moreover have "length (makeIncomingRows vendorInput) = 3"
    by (simp add: makeIncomingRows_def vendorInput_def)
  ultimately show ?thesis
    using scenario_dry_delete channel_overwrite scenario_scope channel_rows channel_scope
    by (simp add: dryDeleteArgs_fields overwriteArgs_def devArgs_def)
qed

subsection \<open>Tables out of the scope\<close>

lemma leaves_refl: "leaves T t w w"
  by (simp add: leaves_def extends_def newEvents_def)

lemma leaves_trans:
  assumes "leaves T t a b" "leaves T t b c"
  shows "leaves T t a c"
proof -
  have e: "extends a b" "extends b c" using assms by (simp_all add: leaves_def)
  note ev = events_trans [OF e]
  show ?thesis using assms ev by (auto simp: leaves_def)
qed

lemma preorder_leaves: "preorder (leaves T t)"
  unfolding preorder_def using leaves_refl leaves_trans by blast

lemmas leaves_rules =
  keeps_ret [OF preorder_leaves] keeps_throw [OF preorder_leaves]
  keeps_andThen [OF preorder_leaves] keeps_forEach [OF preorder_leaves] keeps_if

lemma leaves_emit:
  "list_all (\<lambda>e. \<not> touches T t e) evs \<Longrightarrow> keeps (leaves T t) (emit evs)"
  by (simp add: keeps_def emit_def leaves_def extends_def newEvents_def)

lemma leaves_query: "\<not> touches T t (Query s) \<Longrightarrow> keeps (leaves T t) (query s)"
  by (simp add: query_def leaves_emit)

lemma leaves_same: "keeps (leaves T t) (\<lambda>w. (f w, w))"
  by (simp add: keeps_def leaves_refl)

lemma leaves_tableExists: "keeps (leaves T t) (tableExists n)"
  unfolding tableExists_def
  by (intro leaves_rules leaves_query leaves_same) simp

lemma leaves_countRows:
  assumes "n = T \<Longrightarrow> \<not> list_ex (matches wh) (rows t)"
  shows "keeps (leaves T t) (countRows n wh)"
proof -
  have q: "keeps (leaves T t) (query (SelectCount n wh))"
    by (rule leaves_query) (use assms in auto)
  have l: "keeps (leaves T t)
             (\<lambda>w. case map_of (tables w) n of
                     None \<Rightarrow> (Inl (SqlError n), w)
                   | Some tb \<Rightarrow>
                       if \<not> whereOk tb wh then (Inl (SqlError n), w)
                       else (Inr (length (filter (matches wh) (rows tb))), w))"
    by (auto simp: keeps_def leaves_refl split: option.splits)
  show ?thesis
    unfolding countRows_def
    by (auto split: sum.splits intro!: leaves_rules q l)
qed

lemma leaves_deleteRows:
  assumes "n = T \<Longrightarrow> \<not> list_ex (matches wh) (rows t)"
  shows "keeps (leaves T t) (deleteRows n wh)"
proof -
  have q: "keeps (leaves T t) (query (DeleteFrom n wh))"
    by (rule leaves_query) (use assms in auto)
  have l: "keeps (leaves T t)
             (\<lambda>w. case map_of (tables w) n of
                     None \<Rightarrow> (Inl (SqlError n), w)
                   | Some tb \<Rightarrow>
                       if \<not> whereOk tb wh then (Inl (SqlError n), w)
                       else
                         (Inr (length (filter (matches wh) (rows tb))),
                          w\<lparr>tables := objSet (tables w) n
                                         (tb\<lparr>rows := filter (\<lambda>r. \<not> matches wh r) (rows tb)\<rparr>)\<rparr>))"
    unfolding keeps_def
  proof (intro allI impI)
    fix w w' :: world and r :: "error + nat"
    assume a: "(case map_of (tables w) n of
                     None \<Rightarrow> (Inl (SqlError n), w)
                   | Some tb \<Rightarrow>
                       if \<not> whereOk tb wh then (Inl (SqlError n), w)
                       else
                         (Inr (length (filter (matches wh) (rows tb))),
                          w\<lparr>tables := objSet (tables w) n
                                         (tb\<lparr>rows := filter (\<lambda>r. \<not> matches wh r) (rows tb)\<rparr>)\<rparr>))
               = (r, w')"
    show "leaves T t w w'"
    proof (cases "map_of (tables w) n")
      case None
      then show ?thesis using a by (simp add: leaves_refl)
    next
      case (Some tb)
      show ?thesis
      proof (cases "whereOk tb wh")
        case False
        then show ?thesis using a Some by (simp add: leaves_refl)
      next
        case True
        then have w': "w' = w\<lparr>tables := objSet (tables w) n
                                 (tb\<lparr>rows := filter (\<lambda>r. \<not> matches wh r) (rows tb)\<rparr>)\<rparr>"
          using a Some by auto
        have "map_of (tables w') T = Some t" if m: "map_of (tables w) T = Some t"
        proof (cases "n = T")
          case True
          then have "tb = t" using Some m by simp
          moreover have "filter (\<lambda>r. \<not> matches wh r) (rows t) = rows t"
            using assms [OF True] by (auto simp: list_ex_iff filter_id_conv)
          ultimately show ?thesis using w' True Some by (simp add: map_of_objSet)
        next
          case False
          then show ?thesis using w' m by (simp add: map_of_objSet_other)
        qed
        then show ?thesis using w' by (simp add: leaves_def extends_def newEvents_def)
      qed
    qed
  qed
  show ?thesis
    unfolding deleteRows_def
    by (auto split: sum.splits intro!: leaves_rules q l)
qed

lemma leaves_discover:
  assumes "\<forall>c. \<not> list_ex (matches (MarketScope c mid)) (rows t)"
  shows "keeps (leaves T t) (discoverMetadataScopedTables mid)"
proof -
  have c: "keeps (leaves T t) (countRows n (MarketScope col mid))" for n col
    by (rule leaves_countRows) (use assms in simp)
  show ?thesis
    unfolding discoverMetadataScopedTables_def
    apply (rule keeps_andThen [OF preorder_leaves])
     apply (rule leaves_query, simp)
    apply (rule keeps_forEach_dyn [OF preorder_leaves])
    apply (auto split: sum.splits intro!: leaves_rules c)
    done
qed

lemma leaves_getScopedSalesChannelIds:
  assumes "\<forall>c. \<not> list_ex (matches (MarketScope c mid)) (rows t)"
  shows "keeps (leaves T t) (getScopedSalesChannelIds mid)"
proof -
  have q: "keeps (leaves T t) (query (SelectSalesChannelIds mid))"
    by (rule leaves_query) (use assms in simp)
  have l: "keeps (leaves T t)
             (\<lambda>w. case map_of (tables w) ''sales_channel'' of
                        None \<Rightarrow> (Inl (SqlError ''sales_channel''), w)
                      | Some tb \<Rightarrow>
                          if map_of (columns tb) ''id'' = None
                             \<or> \<not> whereOk tb (MarketScope ''metadata'' mid)
                          then (Inl (SqlError ''sales_channel''), w)
                          else
                            (Inr (filter (\<lambda>s. s \<noteq> [])
                                    (map rowIdString
                                       (filter (matches (MarketScope ''metadata'' mid)) (rows tb)))),
                             w))"
    by (auto simp: keeps_def leaves_refl split: option.splits)
  show ?thesis
    unfolding getScopedSalesChannelIds_def
    by (intro leaves_rules leaves_tableExists q l)
qed

lemma leaves_existingAssignmentTables: "keeps (leaves T t) (existingAssignmentTables ids)"
  unfolding existingAssignmentTables_def
  by (intro leaves_rules leaves_tableExists)

lemma leaves_deleteStep:
  assumes "T \<in> set as \<Longrightarrow> \<not> list_ex (matches (ChannelScope ids)) (rows t)"
    and "\<forall>c. \<not> list_ex (matches (MarketScope c (marketId args))) (rows t)"
  shows "keeps (leaves T t) (deleteStep args ms ids as n rep)"
proof -
  have a: "keeps (leaves T t) (countRows n (ChannelScope ids))"
    "keeps (leaves T t) (deleteRows n (ChannelScope ids))" if "n \<in> set as"
    using that assms(1) by (auto intro!: leaves_countRows leaves_deleteRows)
  have m: "keeps (leaves T t) (countRows n (MarketScope col (marketId args)))"
    "keeps (leaves T t) (deleteRows n (MarketScope col (marketId args)))" for col
    using assms(2) by (auto intro!: leaves_countRows leaves_deleteRows)
  show ?thesis
    unfolding deleteStep_def
    by (auto split: option.splits sum.splits intro!: leaves_rules a m)
qed

lemma keeps_andThen_result:
  assumes "preorder R" "keeps R m"
    and "\<And>x w w'. m w = (Inr x, w') \<Longrightarrow> keeps R (f x)"
  shows "keeps R (andThen m f)"
  unfolding keeps_def andThen_def
proof (intro allI impI)
  fix w r w'
  assume a: "(case m w of (Inl e, w') \<Rightarrow> (Inl e, w') | (Inr x, w') \<Rightarrow> f x w') = (r, w')"
  obtain r1 w1 where m: "m w = (r1, w1)" by (cases "m w")
  then have r1: "R w w1" using assms(2) by (simp add: keeps_def)
  show "R w w'"
  proof (cases r1)
    case (Inl e)
    then show ?thesis using a m r1 by simp
  next
    case (Inr x)
    then have "f x w1 = (r, w')" using a m by simp
    moreover have "keeps R (f x)" using assms(3) m Inr by simp
    ultimately have "R w1 w'" by (simp add: keeps_def)
    then show ?thesis using r1 assms(1) unfolding preorder_def by blast
  qed
qed

lemma andThen_cases:
  assumes "andThen m f w = (res, w')"
  obtains (fail) e where "m w = (Inl e, w')" and "res = Inl e"
  | (ok) x w1 where "m w = (Inr x, w1)" and "f x w1 = (res, w')"
  using assms by (auto simp: andThen_def split: prod.splits sum.splits)

lemma keepsD: "keeps R m \<Longrightarrow> m w = (r, w') \<Longrightarrow> R w w'"
  by (simp add: keeps_def)

lemma leaves_deletions:
  assumes "T \<in> set CHANNEL_ASSIGNMENT_TABLES
             \<Longrightarrow> \<not> list_ex (matches (ChannelScope ids)) (rows t)"
    and "\<forall>c. \<not> list_ex (matches (MarketScope c (marketId args))) (rows t)"
  shows "keeps (leaves T t)
          (andThen (existingAssignmentTables ids)
             (\<lambda>assignmentTables.
                forEach (deleteStep args ms ids assignmentTables)
                  (buildScopedDeleteOrder (map tableName ms) assignmentTables) rep))"
proof (rule keeps_andThen_result [OF preorder_leaves leaves_existingAssignmentTables])
  fix as w w'
  assume "existingAssignmentTables ids w = (Inr as, w')"
  then have "as = (if ids = [] then [] else filter (hasTable w) CHANNEL_ASSIGNMENT_TABLES)"
    by (rule assignment_Inr)
  then have "T \<in> set as \<Longrightarrow> T \<in> set CHANNEL_ASSIGNMENT_TABLES" by (auto split: if_splits)
  then have "T \<in> set as \<Longrightarrow> \<not> list_ex (matches (ChannelScope ids)) (rows t)"
    using assms(1) by blast
  then show "keeps (leaves T t)
               (forEach (deleteStep args ms ids as)
                  (buildScopedDeleteOrder (map tableName ms) as) rep)"
    by (intro leaves_rules leaves_deleteStep assms(2))
qed

lemma leaves_deleteScopedDbConfig:
  assumes run: "deleteScopedDbConfig args rep w = (res, w')"
    and a: "T \<in> set CHANNEL_ASSIGNMENT_TABLES
             \<Longrightarrow> \<not> list_ex (matches (ChannelScope (channelIds w (marketId args)))) (rows t)"
    and m: "\<forall>c. \<not> list_ex (matches (MarketScope c (marketId args))) (rows t)"
  shows "leaves T t w w'"
  using run unfolding deleteScopedDbConfig_def
proof (cases rule: andThen_cases)
  case (fail e)
  show ?thesis using leaves_discover [OF m] fail(1) by (rule keepsD)
next
  case (ok ms w1)
  have l1: "leaves T t w w1" using leaves_discover [OF m] ok(1) by (rule keepsD)
  have s1: "sameCatalog w1 w"
    using catalogIO_same [OF catalogIO_discover ok(1)] by (simp add: sameCatalog_def)
  from ok(2) show ?thesis
  proof (cases rule: andThen_cases)
    case (fail e)
    have "leaves T t w1 w'"
      using leaves_getScopedSalesChannelIds [OF m] fail(1) by (rule keepsD)
    then show ?thesis using l1 leaves_trans by blast
  next
    case (ok ids w2)
    have l2: "leaves T t w1 w2" using leaves_getScopedSalesChannelIds [OF m] ok(1) by (rule keepsD)
    have "ids = channelIds w1 (marketId args)" using ok(1) by (rule ids_Inr)
    then have ids: "ids = channelIds w (marketId args)" using channelIds_cong [OF s1] by simp
    have "leaves T t w2 w'"
      using leaves_deletions [OF _ m] ok(2) by (rule keepsD) (use a ids in simp)
    then show ?thesis using l1 l2 leaves_trans by blast
  qed
qed

lemma leaves_getExistingRows:
  "T \<noteq> STORAGE_TABLE \<Longrightarrow> keeps (leaves T t) (getExistingRows iid mid)"
  by (auto simp: keeps_def getExistingRows_cases leaves_def extends_def newEvents_def
      split: option.splits)

lemma leaves_deleteStored:
  "T \<noteq> STORAGE_TABLE \<Longrightarrow> keeps (leaves T t) (deleteStored iid mid)"
  by (auto simp: keeps_def deleteStored_def andThen_def query_def emit_def leaves_def
      extends_def newEvents_def split: option.splits)

lemma leaves_upsertRow:
  "T \<noteq> STORAGE_TABLE \<Longrightarrow> keeps (leaves T t) (upsertRow iid mid sec k v)"
  by (auto simp: keeps_def upsertRow_def andThen_def query_def emit_def leaves_def
      extends_def newEvents_def split: option.splits)

lemma leaves_insertStep:
  "T \<noteq> STORAGE_TABLE \<Longrightarrow> keeps (leaves T t) (insertStep args x rep)"
  unfolding insertStep_def
  by (intro leaves_rules leaves_upsertRow)

lemma leaves_cleanup:
  fixes args :: CliArgs
  assumes run: "andThen (getExistingRows (instanceId args) (marketId args))
                  (\<lambda>rs. andThen (if \<not> dryRun args
                                  then deleteStored (instanceId args) (marketId args)
                                  else ret ()) (f rs)) w = (res, w')"
    and T: "T \<noteq> STORAGE_TABLE"
    and f: "\<And>rs u w2. sameCatalog w2 w \<Longrightarrow> f rs u w2 = (res, w') \<Longrightarrow> leaves T t w2 w'"
  shows "leaves T t w w'"
  using run
proof (cases rule: andThen_cases)
  case (fail e)
  show ?thesis using leaves_getExistingRows [OF T] fail(1) by (rule keepsD)
next
  case (ok rs w1)
  have l1: "leaves T t w w1" using leaves_getExistingRows [OF T] ok(1) by (rule keepsD)
  from ok(1) obtain stored where st: "storage w = Some stored"
    and "rs = existingRowsOf w args"
    and w1: "w1 = w\<lparr>trace := trace w @ [Query (SelectStored (instanceId args) (marketId args))]\<rparr>"
    by (rule getExistingRows_Inr)
  have c: "keeps (leaves T t)
             (if \<not> dryRun args then deleteStored (instanceId args) (marketId args) else ret ())"
    by (intro leaves_rules leaves_deleteStored T)
  from ok(2) show ?thesis
  proof (cases rule: andThen_cases)
    case (fail e)
    have "leaves T t w1 w'" using c fail(1) by (rule keepsD)
    then show ?thesis using l1 leaves_trans by blast
  next
    case (ok u w2)
    have l2: "leaves T t w1 w2" using c ok(1) by (rule keepsD)
    have "storage w1 = Some stored" using st w1 by simp
    from clear_Inr [OF ok(1) this] have "sameCatalog w2 w"
      using st w1 by (simp add: sameCatalog_def)
    then have "leaves T t w2 w'" using ok(2) by (rule f)
    then show ?thesis using l1 l2 leaves_trans by blast
  qed
qed

lemma leaves_executeDelete:
  assumes run: "executeDelete args rep w = (res, w')"
    and T: "T \<noteq> STORAGE_TABLE"
    and a: "T \<in> set CHANNEL_ASSIGNMENT_TABLES
             \<Longrightarrow> \<not> list_ex (matches (ChannelScope (channelIds w (marketId args)))) (rows t)"
    and m: "\<forall>c. \<not> list_ex (matches (MarketScope c (marketId args))) (rows t)"
  shows "leaves T t w w'"
proof (rule leaves_cleanup [OF run [unfolded executeDelete_def] T])
  fix rs :: "StoredRow list" and u :: unit and w2
  assume s: "sameCatalog w2 w"
    and r: "deleteScopedDbConfig args (rep\<lparr>deleted := deleted rep + length rs\<rparr>) w2 = (res, w')"
  show "leaves T t w2 w'"
    by (rule leaves_deleteScopedDbConfig [OF r _ m]) (use a channelIds_cong [OF s] in simp)
qed

lemma leaves_executeOverwrite:
  assumes run: "executeOverwrite args input rep w = (res, w')"
    and T: "T \<noteq> STORAGE_TABLE"
    and a: "T \<in> set CHANNEL_ASSIGNMENT_TABLES
             \<Longrightarrow> \<not> list_ex (matches (ChannelScope (channelIds w (marketId args)))) (rows t)"
    and m: "\<forall>c. \<not> list_ex (matches (MarketScope c (marketId args))) (rows t)"
  shows "leaves T t w w'"
proof (rule leaves_cleanup [OF run [unfolded executeOverwrite_def] T])
  fix rs :: "StoredRow list" and u :: unit and w2
  assume s: "sameCatalog w2 w"
    and r: "andThen (deleteScopedDbConfig args (rep\<lparr>deleted := deleted rep + length rs\<rparr>))
              (\<lambda>report'. forEach (insertStep args) (makeIncomingRows input) report') w2
            = (res, w')"
  have d: "leaves T t w2 w3"
    if "deleteScopedDbConfig args (rep\<lparr>deleted := deleted rep + length rs\<rparr>) w2 = (r3, w3)"
    for r3 w3
    by (rule leaves_deleteScopedDbConfig [OF that _ m]) (use a channelIds_cong [OF s] in simp)
  from r show "leaves T t w2 w'"
  proof (cases rule: andThen_cases)
    case (fail e)
    then show ?thesis using d by blast
  next
    case (ok report' w3)
    have "keeps (leaves T t) (forEach (insertStep args) (makeIncomingRows input) report')"
      by (intro leaves_rules leaves_insertStep T)
    then have "leaves T t w3 w'" using ok(2) by (rule keepsD)
    then show ?thesis using d [OF ok(1)] leaves_trans by blast
  qed
qed

lemma leaves_untouched:
  "leaves T t w w' \<Longrightarrow> map_of (tables w) T = Some t \<Longrightarrow> untouched T t w w'"
  by (simp add: leaves_def untouched_def)

lemma channel_delete:
  "executeDelete deleteArgs (initialReport deleteArgs) channelWorld
   = (Inr ((initialReport deleteArgs)\<lparr>deleted := 5\<rparr>),
      channelWorld
        \<lparr>storage := Some [(''gp-dev'', ''mercur'',
            \<lparr>row_section = Market, record_key = ''market'',
               data = JObj [(''market_id'', JStr ''mercur'')]\<rparr>)],
         tables :=
           [(''sales_channel'', channelTable\<lparr>rows := [[(''id'', CText ''sc_2''),
                (''metadata'', CJsonb (JObj [(''gp_market_id'', JStr ''mercur'')]))]]\<rparr>),
            (''product_sales_channel'', assignmentTable\<lparr>rows := [[(''id'', CText ''psc_2''),
                (''sales_channel_id'', CText ''sc_2''), (''metadata'', CJsonb (JObj []))]]\<rparr>),
            (''publishable_api_key_sales_channel'', keyTable),
            (''region'', regionTable\<lparr>rows := []\<rparr>),
            (''store'', storeTable)],
         trace :=
           [Query (SelectStored ''gp-dev'' ''bonbeauty''),
            Query (DeleteStored ''gp-dev'' ''bonbeauty''),
            Query SelectJsonbColumns,
            Query (SelectCount ''product_sales_channel'' (MarketScope ''metadata'' ''bonbeauty'')),
            Query (SelectCount ''publishable_api_key_sales_channel''
                     (MarketScope ''metadata'' ''bonbeauty'')),
            Query (SelectCount ''region'' (MarketScope ''metadata'' ''bonbeauty'')),
            Query (SelectCount ''region'' (MarketScope ''settings'' ''bonbeauty'')),
            Query (SelectCount ''sales_channel'' (MarketScope ''metadata'' ''bonbeauty'')),
            Query (SelectCount ''store'' (MarketScope ''metadata'' ''bonbeauty'')),
            Query (SelectTableExists ''sales_channel''),
            Query (SelectSalesChannelIds ''bonbeauty''),
            Query (SelectTableExists ''product_sales_channel''),
            Query (SelectTableExists ''publishable_api_key_sales_channel''),
            Query (SelectTableExists ''sales_channel_stock_location''),
            Query (DeleteFrom ''product_sales_channel'' (ChannelScope [''sc_1''])),
            Query (DeleteFrom ''publishable_api_key_sales_channel'' (ChannelScope [''sc_1''])),
            Query (DeleteFrom ''region'' (MarketScope ''metadata'' ''bonbeauty'')),
            Query (DeleteFrom ''sales_channel'' (MarketScope ''metadata'' ''bonbeauty''))]\<rparr>)"
  by (simp add: run_defs world_defs args_defs)

lemma channel_columns:
  "jsonbColumns channelWorld
   = [(''gp_market_runtime_config'', ''data''), (''product_sales_channel'', ''metadata''),
      (''publishable_api_key_sales_channel'', ''metadata''), (''region'', ''metadata''),
      (''region'', ''settings''), (''sales_channel'', ''metadata''), (''store'', ''metadata'')]"
  by (simp add: jsonbColumns_def STORAGE_TABLE_def world_defs)

lemma channel_ids: "channelIds channelWorld ''bonbeauty'' = [''sc_1'']"
  by (simp add: channelIds_def rowIdString_def marketOf_def world_defs)

text \<open>
  The claim as stated fails in three ways, all shown by one delete for \<^verbatim>\<open>bonbeauty\<close> on the
  database with sales channels.
  \<^item> An assignment table is scoped by \<^verbatim>\<open>sales_channel_id\<close>, not by its JSON content: no row of
    \<^verbatim>\<open>product_sales_channel\<close> names the market in its JSON column \<^verbatim>\<open>metadata\<close>, yet the row
    assigned to the market's channel \<^verbatim>\<open>sc_1\<close> is deleted.
  \<^item> One JSON column without a matching row does not protect a table: no row of \<^verbatim>\<open>region\<close>
    names the market in \<^verbatim>\<open>settings\<close>, yet its row is counted and deleted, because it names
    the market in \<^verbatim>\<open>metadata\<close>.
  \<^item> The processor's own table is scoped by its columns \<^verbatim>\<open>instance_id\<close> and \<^verbatim>\<open>market_id\<close>: the
    catalog lists its JSON column \<^verbatim>\<open>data\<close>, no stored document names the market as
    \<^verbatim>\<open>gp_market_id\<close>, yet the two rows of the market are read and deleted.
\<close>

theorem scope_safety_counterexample:
  "marketId deleteArgs = ''bonbeauty''
   \<and> fst (executeDelete deleteArgs (initialReport deleteArgs) channelWorld)
       = Inr ((initialReport deleteArgs)\<lparr>deleted := 5\<rparr>)
   \<and> map_of (tables channelWorld) ''product_sales_channel'' = Some assignmentTable
   \<and> (''product_sales_channel'', ''metadata'') \<in> set (jsonbColumns channelWorld)
   \<and> \<not> list_ex (matches (MarketScope ''metadata'' ''bonbeauty'')) (rows assignmentTable)
   \<and> Query (DeleteFrom ''product_sales_channel'' (ChannelScope [''sc_1'']))
       \<in> set (trace (snd (executeDelete deleteArgs (initialReport deleteArgs) channelWorld)))
   \<and> map_of (tables (snd (executeDelete deleteArgs (initialReport deleteArgs) channelWorld)))
         ''product_sales_channel''
       = Some (assignmentTable\<lparr>rows := [[(''id'', CText ''psc_2''),
                 (''sales_channel_id'', CText ''sc_2''), (''metadata'', CJsonb (JObj []))]]\<rparr>)
   \<and> length (rows assignmentTable) = 2
   \<and> map_of (tables channelWorld) ''region'' = Some regionTable
   \<and> (''region'', ''settings'') \<in> set (jsonbColumns channelWorld)
   \<and> \<not> list_ex (matches (MarketScope ''settings'' ''bonbeauty'')) (rows regionTable)
   \<and> Query (DeleteFrom ''region'' (MarketScope ''metadata'' ''bonbeauty''))
       \<in> set (trace (snd (executeDelete deleteArgs (initialReport deleteArgs) channelWorld)))
   \<and> map_of (tables (snd (executeDelete deleteArgs (initialReport deleteArgs) channelWorld)))
         ''region''
       = Some (regionTable\<lparr>rows := []\<rparr>)
   \<and> length (rows regionTable) = 1
   \<and> (STORAGE_TABLE, ''data'') \<in> set (jsonbColumns channelWorld)
   \<and> \<not> list_ex (\<lambda>r. marketOf (CJsonb (data (snd (snd r)))) = Some ''bonbeauty'')
         (storedRows channelWorld)
   \<and> length (storedRows channelWorld) = 3
   \<and> Query (DeleteStored ''gp-dev'' ''bonbeauty'')
       \<in> set (trace (snd (executeDelete deleteArgs (initialReport deleteArgs) channelWorld)))
   \<and> length (storedRows (snd (executeDelete deleteArgs (initialReport deleteArgs) channelWorld)))
       = 1"
  by (simp add: channel_delete channel_columns channel_tables)
    (simp add: storedRows_def STORAGE_TABLE_def marketOf_def world_defs args_defs)

text \<open>
  C3 (scope safety), amended. When delete or overwrite runs for market \<open>m\<close>, let \<open>T\<close> be a
  table other than the processor's own, with content \<open>t\<close>, in which no row satisfies
  \<^verbatim>\<open>c->>'gp_market_id' = m\<close> for any column \<open>c\<close> (only a JSON value can satisfy it, so this
  says: in none of the JSON columns of \<open>T\<close>), and, if \<open>T\<close> is one of the three channel
  assignment tables, in which no row has the id of a sales channel of the market as its
  \<^verbatim>\<open>sales_channel_id\<close>. Then the run, whether it returns a report or an error, leaves \<open>T\<close> as
  it was, and none of its statements returns, counts or deletes a row of \<open>T\<close>. (Statements
  on \<open>T\<close> are issued all the same: the count of discovery for each \<^verbatim>\<open>jsonb\<close> column, and the
  \<^verbatim>\<open>DELETE\<close> by \<^verbatim>\<open>sales_channel_id\<close> on an assignment table; their \<^verbatim>\<open>WHERE\<close> clause selects
  no row of \<open>T\<close>.)
\<close>

theorem scope_safety:
  assumes "map_of (tables w) T = Some t"
    and "T \<noteq> STORAGE_TABLE"
    and "\<forall>c. \<not> list_ex (matches (MarketScope c (marketId args))) (rows t)"
    and "T \<in> set CHANNEL_ASSIGNMENT_TABLES
           \<longrightarrow> \<not> list_ex (matches (ChannelScope (channelIds w (marketId args)))) (rows t)"
  shows "(executeDelete args report w = (res, w') \<longrightarrow> untouched T t w w')
       \<and> (executeOverwrite args input report w = (res2, w2) \<longrightarrow> untouched T t w w2)"
proof (intro conjI impI)
  assume "executeDelete args report w = (res, w')"
  then have "leaves T t w w'"
    by (rule leaves_executeDelete [OF _ assms(2) _ assms(3)]) (use assms(4) in simp)
  then show "untouched T t w w'" using assms(1) by (rule leaves_untouched)
next
  assume "executeOverwrite args input report w = (res2, w2)"
  then have "leaves T t w w2"
    by (rule leaves_executeOverwrite [OF _ assms(2) _ assms(3)]) (use assms(4) in simp)
  then show "untouched T t w w2" using assms(1) by (rule leaves_untouched)
qed

theorem scope_safety_witness:
  "map_of (tables channelWorld) ''store'' = Some storeTable
   \<and> ''store'' \<noteq> STORAGE_TABLE \<and> ''store'' \<notin> set CHANNEL_ASSIGNMENT_TABLES
   \<and> (\<forall>c. \<not> list_ex (matches (MarketScope c ''bonbeauty'')) (rows storeTable))
   \<and> rows storeTable \<noteq> []
   \<and> untouched ''store'' storeTable channelWorld
       (snd (executeDelete deleteArgs (initialReport deleteArgs) channelWorld))
   \<and> untouched ''store'' storeTable channelWorld
       (snd (executeOverwrite overwriteArgs vendorInput (initialReport overwriteArgs) channelWorld))
   \<and> Query (SelectCount ''store'' (MarketScope ''metadata'' ''bonbeauty''))
       \<in> set (trace (snd (executeDelete deleteArgs (initialReport deleteArgs) channelWorld)))
   \<and> map_of (tables channelWorld) ''publishable_api_key_sales_channel'' = Some keyTable
   \<and> ''publishable_api_key_sales_channel'' \<noteq> STORAGE_TABLE
   \<and> ''publishable_api_key_sales_channel'' \<in> set CHANNEL_ASSIGNMENT_TABLES
   \<and> (\<forall>c. \<not> list_ex (matches (MarketScope c ''bonbeauty'')) (rows keyTable))
   \<and> channelIds channelWorld ''bonbeauty'' = [''sc_1'']
   \<and> \<not> list_ex (matches (ChannelScope [''sc_1''])) (rows keyTable)
   \<and> rows keyTable \<noteq> []
   \<and> untouched ''publishable_api_key_sales_channel'' keyTable channelWorld
       (snd (executeDelete deleteArgs (initialReport deleteArgs) channelWorld))
   \<and> untouched ''publishable_api_key_sales_channel'' keyTable channelWorld
       (snd (executeOverwrite overwriteArgs vendorInput (initialReport overwriteArgs) channelWorld))
   \<and> Query (DeleteFrom ''publishable_api_key_sales_channel'' (ChannelScope [''sc_1'']))
       \<in> set (trace (snd (executeDelete deleteArgs (initialReport deleteArgs) channelWorld)))"
proof -
  let ?d = "executeDelete deleteArgs (initialReport deleteArgs) channelWorld"
  let ?o = "executeOverwrite overwriteArgs vendorInput (initialReport overwriteArgs) channelWorld"
  have m: "marketId deleteArgs = ''bonbeauty''" "marketId overwriteArgs = ''bonbeauty''"
    by (simp_all add: args_defs)
  have s1: "''store'' \<noteq> STORAGE_TABLE" "''store'' \<notin> set CHANNEL_ASSIGNMENT_TABLES"
    by (simp_all add: STORAGE_TABLE_def CHANNEL_ASSIGNMENT_TABLES_def)
  have s2: "\<forall>c. \<not> list_ex (matches (MarketScope c ''bonbeauty'')) (rows storeTable)"
    by (simp add: storeTable_def marketOf_def)
  have k1: "''publishable_api_key_sales_channel'' \<noteq> STORAGE_TABLE"
    "''publishable_api_key_sales_channel'' \<in> set CHANNEL_ASSIGNMENT_TABLES"
    by (simp_all add: STORAGE_TABLE_def CHANNEL_ASSIGNMENT_TABLES_def)
  have k2: "\<forall>c. \<not> list_ex (matches (MarketScope c ''bonbeauty'')) (rows keyTable)"
    by (simp add: keyTable_def marketOf_def)
  have k3: "\<not> list_ex (matches (ChannelScope [''sc_1''])) (rows keyTable)"
    by (simp add: keyTable_def)
  have sd: "untouched ''store'' storeTable channelWorld (snd ?d)"
    using scope_safety [of channelWorld "''store''" storeTable deleteArgs
        "initialReport deleteArgs" "fst ?d" "snd ?d"] s1 s2
    by (simp add: channel_tables m)
  have so: "untouched ''store'' storeTable channelWorld (snd ?o)"
    using scope_safety [of channelWorld "''store''" storeTable overwriteArgs
        "initialReport overwriteArgs" _ _ vendorInput "fst ?o" "snd ?o"] s1 s2
    by (simp add: channel_tables m)
  have kd: "untouched ''publishable_api_key_sales_channel'' keyTable channelWorld (snd ?d)"
    using scope_safety [of channelWorld "''publishable_api_key_sales_channel''" keyTable
        deleteArgs "initialReport deleteArgs" "fst ?d" "snd ?d"] k1 k2 k3
    by (simp add: channel_tables channel_ids m)
  have ko: "untouched ''publishable_api_key_sales_channel'' keyTable channelWorld (snd ?o)"
    using scope_safety [of channelWorld "''publishable_api_key_sales_channel''" keyTable
        overwriteArgs "initialReport overwriteArgs" _ _ vendorInput "fst ?o" "snd ?o"] k1 k2 k3
    by (simp add: channel_tables channel_ids m)
  have r: "rows storeTable \<noteq> []" "rows keyTable \<noteq> []"
    by (simp_all add: storeTable_def keyTable_def)
  show ?thesis
    using s1 s2 k1 k2 k3 sd so kd ko r
    by (simp add: channel_tables channel_ids channel_delete)
qed

end
